theory Spec2Isabelle
  imports Complex_Main "HOL-Library.Word"
begin

section \<open>JavaScript strings\<close>

text \<open>
  A JavaScript string is a sequence of UTF-16 code units.  \<open>String.prototype.trim\<close> and the
  regular expression class \<^verbatim>\<open>\s\<close> use the same set of code units: WhiteSpace (TAB, VT, FF,
  SP, NBSP, ZWNBSP and the category Zs) together with LineTerminator (LF, CR, LS, PS).
\<close>

type_synonym jsstring = "16 word list"

definition isWhiteSpace :: "16 word \<Rightarrow> bool" where
  "isWhiteSpace c \<longleftrightarrow>
     c \<in> set [0x09, 0x0A, 0x0B, 0x0C, 0x0D, 0x20, 0xA0, 0x1680,
               0x2028, 0x2029, 0x202F, 0x205F, 0x3000, 0xFEFF]
     \<or> (0x2000 \<le> c \<and> c \<le> 0x200A)"

text \<open>An ASCII literal of the source, as code units.\<close>

definition js :: "string \<Rightarrow> jsstring" where
  "js s = map of_char s"

text \<open>\<^verbatim>\<open>text.trim()\<close>: leading and trailing white space removed.\<close>

definition trim :: "jsstring \<Rightarrow> jsstring" where
  "trim s = dropWhile isWhiteSpace (rev (dropWhile isWhiteSpace (rev s)))"

text \<open>
  \<^verbatim>\<open>s.split(/\s+/)\<close>: the pieces between the maximal runs of white space.  A match at the
  very start or end of the string leaves an empty piece there, and the empty string splits
  into one empty piece.  \<open>cur\<close> is the piece being read.
\<close>

function splitWs :: "jsstring \<Rightarrow> jsstring \<Rightarrow> jsstring list" where
  "splitWs cur [] = [cur]"
| "splitWs cur (c # cs) =
     (if isWhiteSpace c then cur # splitWs [] (dropWhile isWhiteSpace cs)
      else splitWs (cur @ [c]) cs)"
  by pat_completeness auto
termination
  by (relation "measure (\<lambda>(cur, s). length s)")
     (auto simp: le_imp_less_Suc length_dropWhile_le)

definition split_ws :: "jsstring \<Rightarrow> jsstring list" where
  "split_ws s = splitWs [] s"

text \<open>
  \<^verbatim>\<open>countWords(text)\<close> (smart-crawler-coordinator.js, 636-650).  The argument is a property
  of a block: \<open>None\<close> is \<^verbatim>\<open>undefined\<close>.  \<^verbatim>\<open>!text\<close> holds for \<^verbatim>\<open>undefined\<close> and for the empty
  string.
\<close>

definition countWords :: "jsstring option \<Rightarrow> nat" where
  "countWords text =
     (case text of
        None \<Rightarrow> 0
      | Some t \<Rightarrow>
          if t = [] then 0
          else let trimmed = trim t in
            if trimmed = [] then 0
            else let words = filter (\<lambda>word. length word > 0) (split_ws trimmed)
                 in length words)"

text \<open>
  The idiom \<^verbatim>\<open>!!(x && x.trim())\<close> of the source: the property is present, not the empty
  string, and not all white space.
\<close>

definition truthyTrim :: "jsstring option \<Rightarrow> bool" where
  "truthyTrim x = (case x of None \<Rightarrow> False | Some s \<Rightarrow> s \<noteq> [] \<and> trim s \<noteq> [])"

text \<open>The idiom \<^verbatim>\<open>!!(x)\<close>: present and not the empty string.\<close>

definition truthy :: "jsstring option \<Rightarrow> bool" where
  "truthy x = (case x of None \<Rightarrow> False | Some s \<Rightarrow> s \<noteq> [])"

section \<open>Blocks\<close>

text \<open>
  A block as \<^verbatim>\<open>convertToSimpleBlocks\<close> builds it: each of the properties is a string or
  absent.  \<open>image_src\<close> is the property \<^verbatim>\<open>image\<close>.
\<close>

record block =
  title :: "jsstring option"
  content :: "jsstring option"
  image_src :: "jsstring option"
  alt :: "jsstring option"
  link :: "jsstring option"

definition emptyBlock :: block where
  "emptyBlock = \<lparr>title = None, content = None, image_src = None, alt = None, link = None\<rparr>"

text \<open>
  Reading \<^verbatim>\<open>blocks[i]\<close> outside the array gives \<^verbatim>\<open>undefined\<close>, and the property access that
  follows every such read in the source throws a TypeError.
\<close>

datatype js_error = TypeError

definition getBlock :: "block list \<Rightarrow> int \<Rightarrow> js_error + block" where
  "getBlock blocks i =
     (if 0 \<le> i \<and> i < int (length blocks) then Inr (blocks ! nat i) else Inl TypeError)"

section \<open>The content-bearing test of the region detector\<close>

text \<open>
  The source writes the test three times in \<^verbatim>\<open>detectContentRegions\<close>: in the scan of the
  first ten blocks (lines 272-278), where a region is opened or extended (lines 290-296)
  and in the look-ahead (lines 348-353).
\<close>

definition first10Valid :: "block \<Rightarrow> bool" where
  "first10Valid block =
     (let hasTitle = truthyTrim (title block);
          hasContent = truthyTrim (content block);
          contentWordCount = (if hasContent then countWords (content block) else 0)
      in hasTitle \<or> (hasContent \<and> contentWordCount \<ge> 15))"

definition isValidContentStart :: "block \<Rightarrow> bool" where
  "isValidContentStart block =
     (let hasTitle = truthyTrim (title block);
          hasContent = truthyTrim (content block);
          contentWordCount = (if hasContent then countWords (content block) else 0)
      in hasTitle \<or> (hasContent \<and> contentWordCount \<ge> 15))"

definition nextIsValid :: "block \<Rightarrow> bool" where
  "nextIsValid nextBlock =
     (let nextHasTitle = truthyTrim (title nextBlock);
          nextHasContent = truthyTrim (content nextBlock);
          nextContentWordCount = (if nextHasContent then countWords (content nextBlock) else 0)
      in nextHasTitle \<or> (nextHasContent \<and> nextContentWordCount \<ge> 15))"

text \<open>
  \<^verbatim>\<open>shouldIncludeBlock(block)\<close> (lines 555-590).  The logging of the excluded block has no
  effect on the result.
\<close>

definition shouldIncludeBlock :: "block \<Rightarrow> bool" where
  "shouldIncludeBlock block =
     (if truthyTrim (title block) then True
      else if truthyTrim (image_src block) then True
      else if truthyTrim (content block) then
        (let wordCount = countWords (content block) in
         if wordCount \<ge> 20 then True else False)
      else if truthyTrim (link block) \<and> \<not> truthy (content block) \<and> \<not> truthy (title block)
              \<and> \<not> truthy (image_src block) then False
      else False)"

section \<open>The specification's vocabulary\<close>

text \<open>
  The number of white-space-separated words of a string, as the specification uses the
  term: the number of positions where a word starts, that is, a code unit that is not
  white space and stands first or after white space.  \<open>prev\<close> tells whether the
  position before is white space (or the start of the string).
\<close>

fun wordStarts :: "bool \<Rightarrow> jsstring \<Rightarrow> nat" where
  "wordStarts prev [] = 0"
| "wordStarts prev (c # cs) =
     (if \<not> isWhiteSpace c \<and> prev then 1 else 0) + wordStarts (isWhiteSpace c) cs"

definition wordCount_spec :: "jsstring \<Rightarrow> nat" where
  "wordCount_spec s = wordStarts True s"

text \<open>A property that is present and not empty after trimming.\<close>

definition nonEmpty_spec :: "jsstring option \<Rightarrow> bool" where
  "nonEmpty_spec x = (case x of None \<Rightarrow> False | Some s \<Rightarrow> trim s \<noteq> [])"

text \<open>
  Content-bearing, in the specification's words: a non-empty title, or non-empty content
  of at least 15 words.
\<close>

definition contentBearing_spec :: "block \<Rightarrow> bool" where
  "contentBearing_spec b \<longleftrightarrow>
     nonEmpty_spec (title b)
     \<or> (nonEmpty_spec (content b) \<and> (case content b of None \<Rightarrow> False | Some c \<Rightarrow> 15 \<le> wordCount_spec c))"

text \<open>
  Kept by the block filter, in the specification's words: a non-empty title, or a non-empty
  image, or content of at least 20 words.
\<close>

definition kept_spec :: "block \<Rightarrow> bool" where
  "kept_spec b \<longleftrightarrow>
     nonEmpty_spec (title b) \<or> nonEmpty_spec (image_src b)
     \<or> (case content b of None \<Rightarrow> False | Some c \<Rightarrow> 20 \<le> wordCount_spec c)"

section \<open>The content region detector\<close>

text \<open>
  A region as \<^verbatim>\<open>detectContentRegions\<close> builds it (lines 311-318).  \<open>r_start\<close> and \<open>r_end\<close>
  are the properties \<^verbatim>\<open>start\<close> and \<^verbatim>\<open>end\<close>.  Indices are JavaScript numbers, here
  integers.
\<close>

datatype region_reason = title_start | content_start

record region =
  r_start :: int
  r_end :: int
  reason :: region_reason
  isFirstRegion :: bool
  extendRange :: int
  lastValidContentIndex :: int

text \<open>The variables of the scan: \<^verbatim>\<open>regions\<close>, \<^verbatim>\<open>currentRegion\<close>, \<^verbatim>\<open>isFirstContentRegion\<close>.\<close>

record scan_state =
  regions :: "region list"
  currentRegion :: "region option"
  isFirstContentRegion :: bool

text \<open>
  The first pass (lines 271-283): is there valid content in the first ten blocks?  The
  loop stops at the first hit.
\<close>

function first10Loop :: "block list \<Rightarrow> int \<Rightarrow> js_error + bool" where
  "first10Loop blocks i =
     (if i < min 10 (int (length blocks)) then
        (case getBlock blocks i of
           Inl e \<Rightarrow> Inl e
         | Inr block \<Rightarrow> if first10Valid block then Inr True else first10Loop blocks (i + 1))
      else Inr False)"
  by pat_completeness auto
termination
  by (relation "measure (\<lambda>(blocks, i). nat (min 10 (int (length blocks)) - i))") auto

declare first10Loop.simps [simp del]

text \<open>
  The first half of the loop body (lines 298-335): a valid block opens a region when none
  is open, and otherwise extends the open one or only moves its last valid index.
\<close>

definition startOrExtend :: "block list \<Rightarrow> bool \<Rightarrow> int \<Rightarrow> block \<Rightarrow> scan_state \<Rightarrow> scan_state" where
  "startOrExtend blocks hasFoundValidContentInFirst10Blocks i block st =
     (if isValidContentStart block then
        (case currentRegion st of
           None \<Rightarrow>
             (let extendRange = (if isFirstContentRegion st \<and> \<not> hasFoundValidContentInFirst10Blocks
                                 then 20 else 10)
              in st\<lparr>currentRegion := Some
                      \<lparr>r_start = i,
                       r_end = min (i + extendRange - 1) (int (length blocks) - 1),
                       reason = (if truthyTrim (title block) then title_start else content_start),
                       isFirstRegion = isFirstContentRegion st,
                       extendRange = extendRange,
                       lastValidContentIndex = i\<rparr>,
                    isFirstContentRegion := False\<rparr>)
         | Some cur \<Rightarrow>
             (let newEnd = min (i + extendRange cur - 1) (int (length blocks) - 1)
              in if newEnd > r_end cur
                 then st\<lparr>currentRegion := Some (cur\<lparr>r_end := newEnd, lastValidContentIndex := i\<rparr>)\<rparr>
                 else st\<lparr>currentRegion := Some (cur\<lparr>lastValidContentIndex := i\<rparr>)\<rparr>))
      else st)"

text \<open>
  The look-ahead (lines 347-359): the first valid block at an index from \<open>j\<close> to
  \<open>lookAheadEnd\<close>.  \<open>Some j\<close> stands for \<^verbatim>\<open>hasMoreValidContent = true\<close> with
  \<^verbatim>\<open>nextValidContentIndex = j\<close>.
\<close>

function lookAhead :: "block list \<Rightarrow> int \<Rightarrow> int \<Rightarrow> js_error + int option" where
  "lookAhead blocks j lookAheadEnd =
     (if j \<le> lookAheadEnd then
        (case getBlock blocks j of
           Inl e \<Rightarrow> Inl e
         | Inr nextBlock \<Rightarrow>
             if nextIsValid nextBlock then Inr (Some j) else lookAhead blocks (j + 1) lookAheadEnd)
      else Inr None)"
  by pat_completeness auto
termination
  by (relation "measure (\<lambda>(blocks, j, lookAheadEnd). nat (lookAheadEnd + 1 - j))") auto

declare lookAhead.simps [simp del]

text \<open>
  The second half of the loop body (lines 338-373): at the end of the open region, look
  ahead from its last valid index; extend the region to a valid block found there, or
  close it.
\<close>

definition checkRegionEnd :: "block list \<Rightarrow> int \<Rightarrow> scan_state \<Rightarrow> js_error + scan_state" where
  "checkRegionEnd blocks i st =
     (case currentRegion st of
        None \<Rightarrow> Inr st
      | Some cur \<Rightarrow>
          if i \<ge> r_end cur then
            (let base = lastValidContentIndex cur;
                 lookAheadEnd = min (base + 10) (int (length blocks) - 1)
             in case lookAhead blocks (base + 1) lookAheadEnd of
                  Inl e \<Rightarrow> Inl e
                | Inr (Some nextValidContentIndex) \<Rightarrow>
                    (let newEnd = min (nextValidContentIndex + extendRange cur - 1)
                                      (int (length blocks) - 1)
                     in Inr (st\<lparr>currentRegion := Some
                               (cur\<lparr>r_end := newEnd,
                                    lastValidContentIndex := nextValidContentIndex\<rparr>)\<rparr>))
                | Inr None \<Rightarrow>
                    Inr (st\<lparr>regions := regions st @ [cur], currentRegion := None\<rparr>))
          else Inr st)"

text \<open>One iteration of the main loop (lines 289-374) at index \<open>i\<close>.\<close>

definition loopBody :: "block list \<Rightarrow> bool \<Rightarrow> int \<Rightarrow> scan_state \<Rightarrow> js_error + scan_state" where
  "loopBody blocks found i st =
     (case getBlock blocks i of
        Inl e \<Rightarrow> Inl e
      | Inr block \<Rightarrow> checkRegionEnd blocks i (startOrExtend blocks found i block st))"

text \<open>The main loop, from index \<open>i\<close> on.\<close>

function scanLoop :: "block list \<Rightarrow> bool \<Rightarrow> int \<Rightarrow> scan_state \<Rightarrow> js_error + scan_state" where
  "scanLoop blocks found i st =
     (if i < int (length blocks) then
        (case loopBody blocks found i st of
           Inl e \<Rightarrow> Inl e
         | Inr st' \<Rightarrow> scanLoop blocks found (i + 1) st')
      else Inr st)"
  by pat_completeness auto
termination
  by (relation "measure (\<lambda>(blocks, found, i, st). nat (int (length blocks) - i))") auto

declare scanLoop.simps [simp del]

definition initialScan :: scan_state where
  "initialScan = \<lparr>regions = [], currentRegion = None, isFirstContentRegion = True\<rparr>"

text \<open>\<^verbatim>\<open>detectContentRegions(blocks)\<close> (lines 264-384).\<close>

definition detectContentRegions :: "block list \<Rightarrow> js_error + region list" where
  "detectContentRegions blocks =
     (case first10Loop blocks 0 of
        Inl e \<Rightarrow> Inl e
      | Inr hasFoundValidContentInFirst10Blocks \<Rightarrow>
          (case scanLoop blocks hasFoundValidContentInFirst10Blocks 0 initialScan of
             Inl e \<Rightarrow> Inl e
           | Inr st \<Rightarrow>
               (case currentRegion st of
                  None \<Rightarrow> Inr (regions st)
                | Some cur \<Rightarrow> Inr (regions st @ [cur]))))"

text \<open>
  The state of the scan after its first \<open>k\<close> iterations, that is, when it arrives at
  index \<open>k\<close>.
\<close>

fun scanPrefix :: "block list \<Rightarrow> bool \<Rightarrow> nat \<Rightarrow> js_error + scan_state" where
  "scanPrefix blocks found 0 = Inr initialScan"
| "scanPrefix blocks found (Suc k) =
     (case scanPrefix blocks found k of
        Inl e \<Rightarrow> Inl e
      | Inr st \<Rightarrow> loopBody blocks found (int k) st)"

text \<open>
  What the scan maintains when it arrives at index \<open>i\<close>: the closed regions lie in the
  array, end before \<open>i\<close> and follow one another without overlap; the open region starts
  at or before \<open>i\<close>, after every closed one, and lies in the array together with its last
  valid index.
\<close>

definition region_ok :: "block list \<Rightarrow> region \<Rightarrow> bool" where
  "region_ok blocks r \<longleftrightarrow>
     0 \<le> r_start r \<and> r_start r \<le> r_end r \<and> r_end r \<le> int (length blocks) - 1"

definition scan_inv :: "block list \<Rightarrow> int \<Rightarrow> scan_state \<Rightarrow> bool" where
  "scan_inv blocks i st \<longleftrightarrow>
     (\<forall>r \<in> set (regions st). region_ok blocks r \<and> r_end r < i)
     \<and> sorted_wrt (\<lambda>a b. r_end a < r_start b) (regions st)
     \<and> (case currentRegion st of
          None \<Rightarrow> True
        | Some cur \<Rightarrow>
            region_ok blocks cur \<and> r_start cur \<le> i
            \<and> r_start cur \<le> lastValidContentIndex cur
            \<and> lastValidContentIndex cur \<le> int (length blocks) - 1
            \<and> 1 \<le> extendRange cur
            \<and> (\<forall>r \<in> set (regions st). r_end r < r_start cur))"

text \<open>What the look-ahead from \<open>j\<close> to \<open>e\<close> returns: the first valid index there, if any.\<close>

definition lookAhead_post :: "block list \<Rightarrow> int \<Rightarrow> int \<Rightarrow> int option \<Rightarrow> bool" where
  "lookAhead_post blocks j e r \<longleftrightarrow>
     (r = None \<longrightarrow> (\<forall>k. j \<le> k \<and> k \<le> e \<longrightarrow> \<not> isValidContentStart (blocks ! nat k)))
     \<and> (\<forall>n. r = Some n \<longrightarrow> j \<le> n \<and> n \<le> e \<and> isValidContentStart (blocks ! nat n)
                  \<and> (\<forall>k. j \<le> k \<and> k < n \<longrightarrow> \<not> isValidContentStart (blocks ! nat k)))"

text \<open>
  All regions of a state of the scan in the order of the result: the closed ones, then the
  open one.  At the end of the scan this is the list that the detector returns.
\<close>

definition allRegions :: "scan_state \<Rightarrow> region list" where
  "allRegions st = regions st @ (case currentRegion st of None \<Rightarrow> [] | Some cur \<Rightarrow> [cur])"

text \<open>
  What a region keeps from its opening: it starts at a valid block, it is marked first
  exactly when no block before its start is valid, its window is 20 when it is first and
  the first pass found nothing and 10 otherwise, its end is not before the end it was
  opened with, and its reason tells whether the opening block has a title.
\<close>

definition opened_ok :: "block list \<Rightarrow> bool \<Rightarrow> region \<Rightarrow> bool" where
  "opened_ok blocks found r \<longleftrightarrow>
     0 \<le> r_start r \<and> r_start r < int (length blocks)
     \<and> isValidContentStart (blocks ! nat (r_start r))
     \<and> (isFirstRegion r \<longleftrightarrow> (\<forall>j < nat (r_start r). \<not> isValidContentStart (blocks ! j)))
     \<and> extendRange r = (if isFirstRegion r \<and> \<not> found then 20 else 10)
     \<and> min (r_start r + extendRange r - 1) (int (length blocks) - 1) \<le> r_end r
     \<and> reason r = (if truthyTrim (title (blocks ! nat (r_start r))) then title_start
                   else content_start)"

definition win_inv :: "block list \<Rightarrow> bool \<Rightarrow> scan_state \<Rightarrow> bool" where
  "win_inv blocks found st \<longleftrightarrow>
     (\<forall>r \<in> set (allRegions st). opened_ok blocks found r)
     \<and> (isFirstContentRegion st \<longleftrightarrow> allRegions st = [])
     \<and> (\<forall>n < length (allRegions st). isFirstRegion (allRegions st ! n) \<longleftrightarrow> n = 0)"

section \<open>The link-pattern pruner\<close>

text \<open>A region as \<^verbatim>\<open>checkLinkPatterns\<close> returns it (lines 475-482).\<close>

record final_region =
  f_start :: int
  f_end :: int
  f_reason :: region_reason
  f_isFirstRegion :: bool
  linkPatternDetected :: bool
  contentLinkPairs :: int

text \<open>The variables of the loop over one region (lines 395-397).\<close>

record link_state =
  adjustedEnd :: int
  pairs :: int
  consecutivePairs :: int

definition requiredConsecutive :: int where
  "requiredConsecutive = 15"

text \<open>
  The search for a link in the next three blocks (lines 424-429), from \<open>j\<close> to \<open>hi\<close>.
\<close>

function nextLinkLoop :: "block list \<Rightarrow> int \<Rightarrow> int \<Rightarrow> js_error + bool" where
  "nextLinkLoop blocks j hi =
     (if j \<le> hi then
        (case getBlock blocks j of
           Inl e \<Rightarrow> Inl e
         | Inr b \<Rightarrow> if truthyTrim (link b) then Inr True else nextLinkLoop blocks (j + 1) hi)
      else Inr False)"
  by pat_completeness auto
termination
  by (relation "measure (\<lambda>(blocks, j, hi). nat (hi + 1 - j))") auto

declare nextLinkLoop.simps [simp del]

text \<open>
  The body of the loop over a region at index \<open>i\<close> (lines 404-470).  The second component
  of the result tells whether the loop is left by \<^verbatim>\<open>break\<close>.  The choice of the text to
  log (lines 436-453) has no effect.
\<close>

definition linkBody :: "block list \<Rightarrow> int \<Rightarrow> link_state \<Rightarrow> js_error + (link_state \<times> bool)" where
  "linkBody blocks i s =
     (case getBlock blocks i of
        Inl e \<Rightarrow> Inl e
      | Inr block \<Rightarrow>
          (let hasValidContent = truthyTrim (content block);
               hasValidTitle = truthyTrim (title block);
               contentWordCount = (if hasValidContent then countWords (content block) else 0);
               titleWordCount = (if hasValidTitle then countWords (title block) else 0);
               hasLink = truthyTrim (link block);
               isValidContentForPattern = ((hasValidContent \<and> contentWordCount \<ge> 5)
                                           \<or> (hasValidTitle \<and> titleWordCount \<ge> 5))
           in if isValidContentForPattern then
                (case (if hasLink then Inr True
                       else nextLinkLoop blocks (i + 1) (min (i + 3) (int (length blocks) - 1))) of
                   Inl e \<Rightarrow> Inl e
                 | Inr foundAssociatedLink \<Rightarrow>
                     (let s1 = (if foundAssociatedLink
                                then s\<lparr>pairs := pairs s + 1,
                                       consecutivePairs := consecutivePairs s + 1\<rparr>
                                else s\<lparr>consecutivePairs := 0\<rparr>)
                      in if consecutivePairs s1 \<ge> requiredConsecutive
                         then Inr (s1\<lparr>adjustedEnd := i - (requiredConsecutive - 1)\<rparr>, True)
                         else Inr (s1, False)))
              else Inr (if consecutivePairs s > 0 then s\<lparr>consecutivePairs := 0\<rparr> else s, False)))"

text \<open>The loop over the blocks of a region (line 403), from \<open>i\<close> to the region's end.\<close>

function linkLoop :: "block list \<Rightarrow> int \<Rightarrow> int \<Rightarrow> link_state \<Rightarrow> js_error + link_state" where
  "linkLoop blocks i regionEnd s =
     (if i \<le> regionEnd then
        (case linkBody blocks i s of
           Inl e \<Rightarrow> Inl e
         | Inr (s', brk) \<Rightarrow> if brk then Inr s' else linkLoop blocks (i + 1) regionEnd s')
      else Inr s)"
  by pat_completeness auto
termination
  by (relation "measure (\<lambda>(blocks, i, regionEnd, s). nat (regionEnd + 1 - i))") auto

declare linkLoop.simps [simp del]

text \<open>
  One region (lines 394-487): \<open>Some\<close> of the pruned region when it is pushed to
  \<^verbatim>\<open>finalRegions\<close>, \<open>None\<close> when it is rejected.
\<close>

definition pruneRegion :: "block list \<Rightarrow> region \<Rightarrow> js_error + final_region option" where
  "pruneRegion blocks region =
     (case linkLoop blocks (r_start region) (r_end region)
             \<lparr>adjustedEnd = r_end region, pairs = 0, consecutivePairs = 0\<rparr> of
        Inl e \<Rightarrow> Inl e
      | Inr s \<Rightarrow>
          if adjustedEnd s \<ge> r_start region then
            Inr (Some \<lparr>f_start = r_start region,
                       f_end = adjustedEnd s,
                       f_reason = reason region,
                       f_isFirstRegion = isFirstRegion region,
                       linkPatternDetected = (consecutivePairs s \<ge> requiredConsecutive),
                       contentLinkPairs = pairs s\<rparr>)
          else Inr None)"

text \<open>The loop over the regions, with \<^verbatim>\<open>finalRegions\<close> as accumulator.\<close>

fun pruneAll :: "block list \<Rightarrow> region list \<Rightarrow> final_region list \<Rightarrow> js_error + final_region list" where
  "pruneAll blocks [] finalRegions = Inr finalRegions"
| "pruneAll blocks (region # rest) finalRegions =
     (case pruneRegion blocks region of
        Inl e \<Rightarrow> Inl e
      | Inr None \<Rightarrow> pruneAll blocks rest finalRegions
      | Inr (Some f) \<Rightarrow> pruneAll blocks rest (finalRegions @ [f]))"

text \<open>\<^verbatim>\<open>checkLinkPatterns(blocks, contentRegions)\<close> (lines 387-491).\<close>

definition checkLinkPatterns :: "block list \<Rightarrow> region list \<Rightarrow> js_error + final_region list" where
  "checkLinkPatterns blocks contentRegions =
     (if length contentRegions = 0 then Inr []
      else pruneAll blocks contentRegions [])"










section \<open>The block filter over regions or the whole sequence\<close>

text \<open>
  The search for a link in the next three blocks in \<^verbatim>\<open>checkOnlyLinkPatterns\<close> (lines
  621-626).  Here a link counts when it is present and not the empty string; it is not
  trimmed.
\<close>

function nextLinkOnlyLoop :: "block list \<Rightarrow> int \<Rightarrow> int \<Rightarrow> js_error + bool" where
  "nextLinkOnlyLoop blocks j hi =
     (if j \<le> hi then
        (case getBlock blocks j of
           Inl e \<Rightarrow> Inl e
         | Inr b \<Rightarrow> if truthy (link b) then Inr True else nextLinkOnlyLoop blocks (j + 1) hi)
      else Inr False)"
  by pat_completeness auto
termination
  by (relation "measure (\<lambda>(blocks, j, hi). nat (hi + 1 - j))") auto

declare nextLinkOnlyLoop.simps [simp del]

text \<open>
  The loop of \<^verbatim>\<open>checkOnlyLinkPatterns\<close> (lines 607-629) with its two counters
  \<^verbatim>\<open>linkPatternCount\<close> and \<^verbatim>\<open>contentBlockCount\<close>.
\<close>

function onlyLinkLoop :: "block list \<Rightarrow> int \<Rightarrow> int \<times> int \<Rightarrow> js_error + int \<times> int" where
  "onlyLinkLoop blocks i (linkPatternCount, contentBlockCount) =
     (if i < int (length blocks) then
        (case getBlock blocks i of
           Inl e \<Rightarrow> Inl e
         | Inr block \<Rightarrow>
             (let hasValidContent = truthyTrim (content block);
                  hasValidTitle = truthyTrim (title block);
                  hasContent = (hasValidContent \<or> hasValidTitle);
                  hasLink = truthy (link block)
              in if hasContent then
                   (if hasLink then
                      onlyLinkLoop blocks (i + 1) (linkPatternCount + 1, contentBlockCount + 1)
                    else
                      (case nextLinkOnlyLoop blocks (i + 1) (min (i + 3) (int (length blocks) - 1)) of
                         Inl e \<Rightarrow> Inl e
                       | Inr found \<Rightarrow>
                           onlyLinkLoop blocks (i + 1)
                             (if found then linkPatternCount + 1 else linkPatternCount,
                              contentBlockCount + 1)))
                 else onlyLinkLoop blocks (i + 1) (linkPatternCount, contentBlockCount)))
      else Inr (linkPatternCount, contentBlockCount))"
  by pat_completeness auto
termination
  by (relation "measure (\<lambda>(blocks, i, c). nat (int (length blocks) - i))") auto

declare onlyLinkLoop.simps [simp del]

text \<open>
  \<^verbatim>\<open>checkOnlyLinkPatterns(blocks)\<close> (lines 603-633).  The quotient of the two counters is
  compared with 0.7.  The source computes the quotient and reads the literal in double
  precision; the model compares the exact values, which gives the same result for every
  array that can exist (lemma \<open>linkOnly_spec_rounded\<close> below).
\<close>

definition checkOnlyLinkPatterns :: "block list \<Rightarrow> js_error + bool" where
  "checkOnlyLinkPatterns blocks =
     (case onlyLinkLoop blocks 0 (0, 0) of
        Inl e \<Rightarrow> Inl e
      | Inr (linkPatternCount, contentBlockCount) \<Rightarrow>
          Inr (contentBlockCount > 0
               \<and> (real_of_int linkPatternCount / real_of_int contentBlockCount) > 7 / 10))"

text \<open>A block of the result with its \<^verbatim>\<open>_meta\<close> (lines 505-514 and 532-541).\<close>

datatype meta_reason = no_region_filter | region_reason region_reason

record filtered_block =
  fb_block :: block
  regionReason :: meta_reason
  blockIndex :: int
  isMainContent :: bool
  fb_isFirstRegion :: "bool option"
  contentWordCount :: nat

text \<open>
  Without regions (lines 504-514): the blocks that pass the filter, numbered in the
  filtered list.
\<close>

definition noRegionFilter :: "block list \<Rightarrow> filtered_block list" where
  "noRegionFilter blocks =
     map (\<lambda>(block, index).
            \<lparr>fb_block = block,
             regionReason = no_region_filter,
             blockIndex = int index,
             isMainContent = True,
             fb_isFirstRegion = None,
             contentWordCount = (if truthy (content block) then countWords (content block) else 0)\<rparr>)
         (zip (filter shouldIncludeBlock blocks) [0 ..< length (filter shouldIncludeBlock blocks)])"

text \<open>The loop over the indices of one region (lines 523-548), from \<open>i\<close> to its end.\<close>

function regionBlocksLoop ::
  "block list \<Rightarrow> final_region \<Rightarrow> int \<Rightarrow> filtered_block list \<Rightarrow> js_error + filtered_block list" where
  "regionBlocksLoop blocks region i mainContentBlocks =
     (if i \<le> f_end region then
        (if i < int (length blocks) then
           (case getBlock blocks i of
              Inl e \<Rightarrow> Inl e
            | Inr block \<Rightarrow>
                if shouldIncludeBlock block then
                  regionBlocksLoop blocks region (i + 1)
                    (mainContentBlocks @
                      [\<lparr>fb_block = block,
                        regionReason = region_reason (f_reason region),
                        blockIndex = i,
                        isMainContent = True,
                        fb_isFirstRegion = Some (f_isFirstRegion region),
                        contentWordCount =
                          (if truthy (content block) then countWords (content block) else 0)\<rparr>])
                else regionBlocksLoop blocks region (i + 1) mainContentBlocks)
         else regionBlocksLoop blocks region (i + 1) mainContentBlocks)
      else Inr mainContentBlocks)"
  by pat_completeness auto
termination
  by (relation "measure (\<lambda>(blocks, region, i, acc). nat (f_end region + 1 - i))") auto

declare regionBlocksLoop.simps [simp del]

fun regionsLoop ::
  "block list \<Rightarrow> final_region list \<Rightarrow> filtered_block list \<Rightarrow> js_error + filtered_block list" where
  "regionsLoop blocks [] mainContentBlocks = Inr mainContentBlocks"
| "regionsLoop blocks (region # rest) mainContentBlocks =
     (case regionBlocksLoop blocks region (f_start region) mainContentBlocks of
        Inl e \<Rightarrow> Inl e
      | Inr acc \<Rightarrow> regionsLoop blocks rest acc)"

text \<open>
  \<^verbatim>\<open>extractMainContentBlocks(blocks, regions)\<close> (lines 494-552); the parameter
  \<^verbatim>\<open>regions\<close> is \<open>finalRegions\<close> here.
\<close>

definition extractMainContentBlocks ::
  "block list \<Rightarrow> final_region list \<Rightarrow> js_error + filtered_block list" where
  "extractMainContentBlocks blocks finalRegions =
     (if length finalRegions = 0 then
        (case checkOnlyLinkPatterns blocks of
           Inl e \<Rightarrow> Inl e
         | Inr hasOnlyLinkPatterns \<Rightarrow>
             if hasOnlyLinkPatterns then Inr [] else Inr (noRegionFilter blocks))
      else regionsLoop blocks finalRegions [])"

text \<open>\<^verbatim>\<open>detectAndFilterMainContent(blocks)\<close> (lines 242-261).\<close>

definition detectAndFilterMainContent :: "block list \<Rightarrow> js_error + filtered_block list" where
  "detectAndFilterMainContent blocks =
     (if length blocks = 0 then Inr []
      else
        (case detectContentRegions blocks of
           Inl e \<Rightarrow> Inl e
         | Inr contentRegions \<Rightarrow>
             (case checkLinkPatterns blocks contentRegions of
                Inl e \<Rightarrow> Inl e
              | Inr finalRegions \<Rightarrow> extractMainContentBlocks blocks finalRegions)))"

text \<open>
  The specification's terms for the link-pattern-only test: a block counts when its title
  or its content is non-empty, it is linked when it or one of the next three blocks has a
  link, and the page is link-pattern-only when there are blocks that count and more than
  seven tenths of them are linked.
\<close>

definition counts_spec :: "block \<Rightarrow> bool" where
  "counts_spec b \<longleftrightarrow> nonEmpty_spec (title b) \<or> nonEmpty_spec (content b)"

definition linked_spec :: "block list \<Rightarrow> nat \<Rightarrow> bool" where
  "linked_spec blocks i \<longleftrightarrow>
     (\<exists>j \<in> {i ..< min (i + 4) (length blocks)}. truthy (link (blocks ! j)))"

definition contentCount_spec :: "block list \<Rightarrow> nat" where
  "contentCount_spec blocks = length (filter (\<lambda>i. counts_spec (blocks ! i)) [0 ..< length blocks])"

definition linkedCount_spec :: "block list \<Rightarrow> nat" where
  "linkedCount_spec blocks =
     length (filter (\<lambda>i. counts_spec (blocks ! i) \<and> linked_spec blocks i) [0 ..< length blocks])"

definition linkOnly_spec :: "block list \<Rightarrow> bool" where
  "linkOnly_spec blocks \<longleftrightarrow>
     0 < contentCount_spec blocks
     \<and> real (linkedCount_spec blocks) / real (contentCount_spec blocks) > 7 / 10"

section \<open>The lightweight fetch\<close>

text \<open>
  \<^verbatim>\<open>s.includes(sub)\<close>: \<open>sub\<close> occurs in \<open>s\<close> as a contiguous piece.
\<close>

fun includesStr :: "jsstring \<Rightarrow> jsstring \<Rightarrow> bool" where
  "includesStr [] sub = (sub = [])"
| "includesStr (c # cs) sub = (take (length sub) (c # cs) = sub \<or> includesStr cs sub)"

text \<open>
  \<^verbatim>\<open>toLowerCase\<close> on ASCII text.  The function of the language applies the case mapping
  of Unicode; the classification below takes the lower-casing function as a parameter and
  this one stands for it on the ASCII messages of the examples.
\<close>

definition asciiLower :: "jsstring \<Rightarrow> jsstring" where
  "asciiLower s = map (\<lambda>c. if 0x41 \<le> c \<and> c \<le> 0x5A then c + 0x20 else c) s"

text \<open>
  \<^verbatim>\<open>shouldFallbackToBrowser(error)\<close> (non-browser crawler, lines 360-386), on the message of
  the error.
\<close>

definition shouldFallbackToBrowser :: "(jsstring \<Rightarrow> jsstring) \<Rightarrow> jsstring \<Rightarrow> bool" where
  "shouldFallbackToBrowser toLowerCase message =
     (let errorMessage = toLowerCase message in
      if includesStr errorMessage (js ''timeout'') \<or> includesStr errorMessage (js ''empty'')
         \<or> includesStr errorMessage (js ''no content'') \<or> includesStr errorMessage (js ''javascript'')
      then True
      else if includesStr errorMessage (js ''enotfound'') \<or> includesStr errorMessage (js ''econnrefused'')
              \<or> includesStr errorMessage (js ''certificate'')
      then False
      else if includesStr errorMessage (js ''403'') \<or> includesStr errorMessage (js ''503'')
              \<or> includesStr errorMessage (js ''cloudflare'')
      then True
      else True)"

text \<open>
  What the network and the parser do in one attempt is given from outside: the request
  fails with an error (no connection, timeout, a status outside 200-399, more redirects than
  allowed), or a response arrives with its content-type header and its status, and
  \<^verbatim>\<open>extractStructuredContent\<close> fails on its body with an error or returns the extracted
  data.
\<close>

datatype 'd attempt_outcome =
  RequestError jsstring
| Response "jsstring option" int "jsstring + 'd"

text \<open>The options of the request that the source fixes (lines 296-310).\<close>

record request_config =
  timeout :: int
  maxRedirects :: int

definition requestConfig :: request_config where
  "requestConfig = \<lparr>timeout = 30000, maxRedirects = 5\<rparr>"

text \<open>What the crawler does to the outside, in order: requests and waits.\<close>

datatype event = HttpGet request_config | Sleep int

text \<open>
  The result object of a crawl (lines 325-332 and 342-348): on success the method, the
  status code (which a result of the browser crawl lacks) and the extracted data; on failure the method, the error message and the
  hint \<^verbatim>\<open>shouldFallbackToBrowser\<close>, which a failure built by the coordinator does not have.
  The processing time is not modelled.
\<close>

datatype crawl_method = non_browser | browser

datatype 'd crawl_result =
  CrawlSuccess crawl_method "int option" 'd
| CrawlFailure crawl_method jsstring "bool option"

text \<open>
  The body of \<^verbatim>\<open>try\<close> (lines 296-332) on the outcome of the attempt: the error thrown into
  \<^verbatim>\<open>catch\<close>, or the result returned.
\<close>

definition tryAttempt :: "'d attempt_outcome \<Rightarrow> jsstring + 'd crawl_result" where
  "tryAttempt outcome =
     (case outcome of
        RequestError message \<Rightarrow> Inl message
      | Response header status extraction \<Rightarrow>
          (let contentType = (case header of None \<Rightarrow> [] | Some h \<Rightarrow> h) in
           if \<not> includesStr contentType (js ''text/html'')
           then Inl (js ''Non-HTML content type: '' @ contentType)
           else (case extraction of
                   Inl message \<Rightarrow> Inl message
                 | Inr extractedData \<Rightarrow> Inr (CrawlSuccess non_browser (Some status) extractedData))))"

text \<open>
  The retry loop (lines 294-356) from attempt number \<open>attempt\<close> on; \<open>net n\<close> is the outcome
  of the \<open>n\<close>-th attempt.  \<open>None\<close> is the \<^verbatim>\<open>undefined\<close> that the function returns when the
  loop ends without \<^verbatim>\<open>return\<close>.
\<close>

function attemptLoop ::
  "(jsstring \<Rightarrow> jsstring) \<Rightarrow> (int \<Rightarrow> 'd attempt_outcome) \<Rightarrow> int \<Rightarrow> int \<Rightarrow> int \<Rightarrow> event list
     \<Rightarrow> 'd crawl_result option \<times> event list" where
  "attemptLoop toLowerCase net retryDelay maxRetries attempt trace =
     (if attempt \<le> maxRetries + 1 then
        (case tryAttempt (net attempt) of
           Inr result \<Rightarrow> (Some result, trace @ [HttpGet requestConfig])
         | Inl message \<Rightarrow>
             if attempt > maxRetries then
               (Some (CrawlFailure non_browser message
                        (Some (shouldFallbackToBrowser toLowerCase message))),
                trace @ [HttpGet requestConfig])
             else if attempt \<le> maxRetries then
               attemptLoop toLowerCase net retryDelay maxRetries (attempt + 1)
                 (trace @ [HttpGet requestConfig, Sleep (retryDelay * attempt)])
             else
               attemptLoop toLowerCase net retryDelay maxRetries (attempt + 1)
                 (trace @ [HttpGet requestConfig]))
      else (None, trace))"
  by pat_completeness auto
termination
  by (relation "measure (\<lambda>(toLowerCase, net, retryDelay, maxRetries, attempt, trace).
                            nat (maxRetries + 2 - attempt))") auto

declare attemptLoop.simps [simp del]

text \<open>
  \<^verbatim>\<open>crawlUrl(url, options)\<close> of the non-browser crawler (lines 288-357).  \<open>optMaxRetries\<close> is
  \<^verbatim>\<open>options.maxRetries\<close>; when it is absent or 0 the crawler's own \<^verbatim>\<open>maxRetries = 2\<close> is
  taken.  The delay is the crawler's \<^verbatim>\<open>retryDelay = 1000\<close>.
\<close>

definition nbMaxRetries :: int where
  "nbMaxRetries = 2"

definition nbRetryDelay :: int where
  "nbRetryDelay = 1000"

definition effectiveMaxRetries :: "int option \<Rightarrow> int" where
  "effectiveMaxRetries optMaxRetries =
     (case optMaxRetries of
        None \<Rightarrow> nbMaxRetries
      | Some m \<Rightarrow> if m = 0 then nbMaxRetries else m)"

definition nbCrawlUrl ::
  "(jsstring \<Rightarrow> jsstring) \<Rightarrow> (int \<Rightarrow> 'd attempt_outcome) \<Rightarrow> int option
     \<Rightarrow> 'd crawl_result option \<times> event list" where
  "nbCrawlUrl toLowerCase net optMaxRetries =
     (let maxRetries = effectiveMaxRetries optMaxRetries
      in attemptLoop toLowerCase net nbRetryDelay maxRetries 1 [])"

text \<open>
  The events of \<open>k\<close> attempts of which the first \<open>k - 1\<close> are followed by a wait: the wait
  after attempt \<open>a\<close> is \<open>retryDelay * a\<close>.
\<close>

definition attemptsTrace :: "int \<Rightarrow> int \<Rightarrow> event list" where
  "attemptsTrace retryDelay k =
     concat (map (\<lambda>a. [HttpGet requestConfig, Sleep (retryDelay * a)]) [1 .. k - 1])
     @ [HttpGet requestConfig]"

text \<open>The three groups of signatures of the classification, on the lower-cased message.\<close>

definition scriptSignature :: "jsstring \<Rightarrow> bool" where
  "scriptSignature m \<longleftrightarrow>
     includesStr m (js ''timeout'') \<or> includesStr m (js ''empty'')
     \<or> includesStr m (js ''no content'') \<or> includesStr m (js ''javascript'')"

definition networkSignature :: "jsstring \<Rightarrow> bool" where
  "networkSignature m \<longleftrightarrow>
     includesStr m (js ''enotfound'') \<or> includesStr m (js ''econnrefused'')
     \<or> includesStr m (js ''certificate'')"

definition blockSignature :: "jsstring \<Rightarrow> bool" where
  "blockSignature m \<longleftrightarrow>
     includesStr m (js ''403'') \<or> includesStr m (js ''503'') \<or> includesStr m (js ''cloudflare'')"

section \<open>The coordinator\<close>

text \<open>
  An element of \<^verbatim>\<open>allItemsInOrder\<close> and the extracted data of a crawl, as far as the
  coordinator reads them.  \<open>items = None\<close> stands for a missing \<^verbatim>\<open>data\<close> or
  \<^verbatim>\<open>allItemsInOrder\<close>.
\<close>

record item =
  i_title :: "jsstring option"
  i_content :: "jsstring option"
  i_img :: "jsstring option"
  i_image :: "jsstring option"
  i_alt :: "jsstring option"
  i_link :: "jsstring option"

record extracted_data =
  ed_title :: jsstring
  ed_totalItems :: int
  ed_totalWords :: int
  ed_items :: "item list option"

text \<open>The value of \<^verbatim>\<open>a || b\<close> on two optional strings.\<close>

definition orElse :: "jsstring option \<Rightarrow> jsstring option \<Rightarrow> jsstring option" where
  "orElse a b = (if truthy a then a else b)"

text \<open>The block built from one item (lines 208-227), and whether it has any property.\<close>

definition simpleBlock :: "item \<Rightarrow> block" where
  "simpleBlock it =
     \<lparr>title = (if truthy (i_title it) then i_title it else None),
      content = (if truthy (i_content it) then i_content it else None),
      image_src = (if truthy (orElse (i_img it) (i_image it)) then orElse (i_img it) (i_image it)
                   else None),
      alt = (if truthy (orElse (i_img it) (i_image it)) \<and> truthy (i_alt it) then i_alt it else None),
      link = (if truthy (i_link it) then i_link it else None)\<rparr>"

definition hasKeys :: "block \<Rightarrow> bool" where
  "hasKeys b \<longleftrightarrow>
     title b \<noteq> None \<or> content b \<noteq> None \<or> image_src b \<noteq> None \<or> alt b \<noteq> None \<or> link b \<noteq> None"

text \<open>\<^verbatim>\<open>convertToSimpleBlocks(data)\<close> (lines 200-239).\<close>

definition convertToSimpleBlocks :: "item list option \<Rightarrow> js_error + filtered_block list" where
  "convertToSimpleBlocks data =
     (case data of
        None \<Rightarrow> Inr []
      | Some allItemsInOrder \<Rightarrow>
          detectAndFilterMainContent (filter hasKeys (map simpleBlock allItemsInOrder)))"

text \<open>The calls of the two crawlers that the coordinator makes, in order.\<close>

datatype call = NonBrowserCall jsstring | BrowserCall jsstring

text \<open>
  \<^verbatim>\<open>executeNonBrowserCrawl(url)\<close> (lines 130-142).  \<open>nb url\<close> is what
  \<^verbatim>\<open>nonBrowserCrawler.crawlUrl(url)\<close> does: it throws an error with a message, or it returns
  a result, or \<^verbatim>\<open>undefined\<close> (\<open>None\<close>).
\<close>

definition executeNonBrowserCrawl ::
  "(jsstring \<Rightarrow> jsstring + 'd crawl_result option) \<Rightarrow> jsstring \<Rightarrow> call list
     \<Rightarrow> 'd crawl_result option \<times> call list" where
  "executeNonBrowserCrawl nb url calls =
     (case nb url of
        Inr result \<Rightarrow> (result, calls @ [NonBrowserCall url])
      | Inl message \<Rightarrow> (Some (CrawlFailure non_browser message None), calls @ [NonBrowserCall url]))"

text \<open>
  \<^verbatim>\<open>executeBrowserCrawl(url)\<close> (lines 145-195).  \<open>br url\<close> is what
  \<^verbatim>\<open>browserCrawler.crawlUrl(url)\<close> does: it throws, or it returns \<^verbatim>\<open>undefined\<close> or a page with
  title, content and word count.
\<close>

record browser_page =
  bp_title :: "jsstring option"
  bp_content :: "jsstring option"
  bp_wordCount :: int

definition executeBrowserCrawl ::
  "(jsstring \<Rightarrow> jsstring + browser_page option) \<Rightarrow> jsstring \<Rightarrow> call list
     \<Rightarrow> extracted_data crawl_result option \<times> call list" where
  "executeBrowserCrawl br url calls =
     (case br url of
        Inl message \<Rightarrow> (Some (CrawlFailure browser message None), calls @ [BrowserCall url])
      | Inr None \<Rightarrow>
          (Some (CrawlFailure browser (js ''No data extracted from browser crawler'') None),
           calls @ [BrowserCall url])
      | Inr (Some page) \<Rightarrow>
          if truthy (bp_title page) then
            (Some (CrawlSuccess browser None
               \<lparr>ed_title = the (bp_title page), ed_totalItems = 1,
                ed_totalWords = bp_wordCount page,
                ed_items = Some [\<lparr>i_title = bp_title page,
                                  i_content = Some (case bp_content page of None \<Rightarrow> [] | Some c \<Rightarrow> c),
                                  i_img = None, i_image = None, i_alt = None, i_link = None\<rparr>]\<rparr>),
             calls @ [BrowserCall url])
          else
            (Some (CrawlFailure browser (js ''No data extracted from browser crawler'') None),
             calls @ [BrowserCall url]))"

text \<open>
  The result of the coordinator's \<^verbatim>\<open>crawlUrl\<close> (lines 76-93, 105-112 and 119-125).  The
  message of an error that the engine raises is not modelled.
\<close>

datatype error_text = Message jsstring | TypeErrorMessage

record coord_data =
  cd_title :: jsstring
  cd_totalItems :: int
  cd_totalWords :: int
  cd_mainContentBlocks :: nat
  cd_mainContentWords :: nat
  cd_extractionMethod :: crawl_method
  cd_blocks :: "block list"

record coord_result =
  c_success :: bool
  c_url :: jsstring
  c_domain :: jsstring
  c_method :: "crawl_method option"
  c_error :: "error_text option"
  c_extractedData :: "coord_data option"

text \<open>The result of the \<^verbatim>\<open>catch\<close> at lines 115-126: it has no \<^verbatim>\<open>method\<close>.\<close>

definition caughtResult :: "jsstring \<Rightarrow> jsstring \<Rightarrow> error_text \<Rightarrow> coord_result" where
  "caughtResult url domain e =
     \<lparr>c_success = False, c_url = url, c_domain = domain, c_method = None,
      c_error = Some e, c_extractedData = None\<rparr>"

text \<open>The words of the main content (lines 65-68): of the content, or else of the title.\<close>

definition mainWords :: "filtered_block \<Rightarrow> nat" where
  "mainWords fb = countWords (orElse (orElse (content (fb_block fb)) (title (fb_block fb))) (Some []))"

text \<open>
  \<^verbatim>\<open>crawlUrl(url, options)\<close> of the coordinator (lines 30-127).  \<open>parseUrl\<close> is the host name
  of a URL in lower case, or \<open>None\<close> when \<^verbatim>\<open>new URL(url)\<close> throws; then \<^verbatim>\<open>extractDomainName\<close>
  throws outside the \<^verbatim>\<open>try\<close> and the call fails (\<open>Inl\<close>).  \<open>br\<close> is the browser crawler
  that the module imports.
\<close>

definition coordCrawlUrl ::
  "(jsstring \<Rightarrow> jsstring option)
     \<Rightarrow> (jsstring \<Rightarrow> jsstring + extracted_data crawl_result option)
     \<Rightarrow> (jsstring \<Rightarrow> jsstring + browser_page option)
     \<Rightarrow> jsstring \<Rightarrow> (error_text + coord_result) \<times> call list" where
  "coordCrawlUrl parseUrl nb br url =
     (case parseUrl url of
        None \<Rightarrow> (Inl (Message (js ''Invalid URL: '' @ url)), [])
      | Some domain \<Rightarrow>
          (let (crawlResult, calls) = executeNonBrowserCrawl nb url [];
               finalMethod = non_browser
           in case crawlResult of
                None \<Rightarrow> (Inr (caughtResult url domain TypeErrorMessage), calls)
              | Some (CrawlSuccess m status extractedData) \<Rightarrow>
                  (case convertToSimpleBlocks (ed_items extractedData) of
                     Inl e \<Rightarrow> (Inr (caughtResult url domain TypeErrorMessage), calls)
                   | Inr processedBlocks \<Rightarrow>
                       (let mainContentBlocks = filter isMainContent processedBlocks;
                            mainContentWords = sum_list (map mainWords mainContentBlocks);
                            cleanBlocks = map fb_block processedBlocks
                        in (Inr \<lparr>c_success = True, c_url = url, c_domain = domain,
                                 c_method = Some finalMethod, c_error = None,
                                 c_extractedData = Some
                                   \<lparr>cd_title = ed_title extractedData,
                                    cd_totalItems = ed_totalItems extractedData,
                                    cd_totalWords = ed_totalWords extractedData,
                                    cd_mainContentBlocks = length mainContentBlocks,
                                    cd_mainContentWords = mainContentWords,
                                    cd_extractionMethod = finalMethod,
                                    cd_blocks = cleanBlocks\<rparr>\<rparr>,
                            calls)))
              | Some (CrawlFailure m message hint) \<Rightarrow>
                  (Inr \<lparr>c_success = False, c_url = url, c_domain = domain,
                        c_method = Some finalMethod, c_error = Some (Message message),
                        c_extractedData = None\<rparr>,
                   calls)))"

section \<open>Example data\<close>

text \<open>A text of \<open>n\<close> words, a short paragraph, a heading, and a paragraph of \<open>n\<close> words.\<close>

definition nWords :: "nat \<Rightarrow> jsstring" where
  "nWords n = concat (replicate n (js ''ab ''))"

definition shortBlock :: block where
  "shortBlock = emptyBlock\<lparr>content := Some (js ''short text'')\<rparr>"

definition titleBlock :: block where
  "titleBlock = emptyBlock\<lparr>title := Some (js ''Heading'')\<rparr>"

definition contentBlock :: "nat \<Rightarrow> block" where
  "contentBlock n = emptyBlock\<lparr>content := Some (nWords n)\<rparr>"

text \<open>
  Twelve short paragraphs, a heading, thirty short paragraphs; and a page with headings at
  indices 5 and 26.
\<close>

definition lateTitlePage :: "block list" where
  "lateTitlePage = replicate 12 shortBlock @ [titleBlock] @ replicate 30 shortBlock"

definition twoRegionPage :: "block list" where
  "twoRegionPage = replicate 5 shortBlock @ [titleBlock] @ replicate 20 shortBlock
                     @ [titleBlock] @ replicate 3 shortBlock"

text \<open>Headings at indices 5 and 14 among short paragraphs, 18 blocks in all.\<close>

definition mergedPage :: "block list" where
  "mergedPage = replicate 5 shortBlock @ [titleBlock] @ replicate 8 shortBlock
                  @ [titleBlock] @ replicate 3 shortBlock"




text \<open>
  A short paragraph with a link, an image, and a page of seven linked paragraphs, three
  short paragraphs without a link and an image: seven of its ten blocks with text are
  linked.
\<close>

definition shortLinked :: block where
  "shortLinked = emptyBlock\<lparr>content := Some (js ''more''), link := Some (js ''/x'')\<rparr>"

definition imageBlock :: block where
  "imageBlock = emptyBlock\<lparr>image_src := Some (js ''/i.png'')\<rparr>"

definition seventyPage :: "block list" where
  "seventyPage = replicate 7 shortLinked @ replicate 3 shortBlock @ [imageBlock]"

definition eightyPage :: "block list" where
  "eightyPage = replicate 8 shortLinked @ replicate 2 shortBlock @ [imageBlock]"

text \<open>
  A server that answers JSON first and HTML afterwards; a host name that does not resolve;
  a server that never answers in time.
\<close>

definition jsonThenHtml :: "int \<Rightarrow> unit attempt_outcome" where
  "jsonThenHtml n =
     (if n = 1 then Response (Some (js ''application/json'')) 200 (Inr ())
      else Response (Some (js ''text/html; charset=utf-8'')) 200 (Inr ()))"

definition unknownHost :: "int \<Rightarrow> unit attempt_outcome" where
  "unknownHost n = RequestError (js ''getaddrinfo ENOTFOUND javascript.info'')"

definition slowHost :: "int \<Rightarrow> unit attempt_outcome" where
  "slowHost n = RequestError (js ''timeout of 30000ms exceeded'')"

definition refusingHost :: "int \<Rightarrow> unit attempt_outcome" where
  "refusingHost n = RequestError (js ''connect ECONNREFUSED 127.0.0.1:80'')"

text \<open>A URL parser that accepts every URL, and crawlers for the coordinator.\<close>

definition anyHost :: "jsstring \<Rightarrow> jsstring option" where
  "anyHost url = Some (js ''example.org'')"

definition failingCrawler :: "jsstring \<Rightarrow> jsstring + extracted_data crawl_result option" where
  "failingCrawler url = Inr (Some (CrawlFailure non_browser (js ''timeout of 30000ms exceeded'') (Some True)))"

definition workingBrowser :: "jsstring \<Rightarrow> jsstring + browser_page option" where
  "workingBrowser url = Inr (Some \<lparr>bp_title = Some (js ''Page''), bp_content = None, bp_wordCount = 0\<rparr>)"




section \<open>Word counting\<close>

lemma trim_Nil [simp]: "trim [] = []"
  by (simp add: trim_def)

lemma wordStarts_all_ws: "\<forall>y \<in> set ys. isWhiteSpace y \<Longrightarrow> wordStarts b ys = 0"
  by (induction ys arbitrary: b) auto

lemma wordStarts_append_ws:
  "\<forall>y \<in> set ys. isWhiteSpace y \<Longrightarrow> wordStarts b (xs @ ys) = wordStarts b xs"
  by (induction xs arbitrary: b) (auto simp: wordStarts_all_ws)

lemma wordStarts_dropWhile:
  "wordStarts True (dropWhile isWhiteSpace cs) = wordStarts True cs"
  by (induction cs) auto

text \<open>
  The non-empty pieces of a split are the words: a piece being read counts as one word,
  which the next code unit continues if it is not white space.
\<close>

lemma splitWs_count:
  "length (filter (\<lambda>word. word \<noteq> []) (splitWs cur s)) =
     (if cur = [] then wordStarts True s else 1 + wordStarts False s)"
proof (induction cur s rule: splitWs.induct)
  case (1 cur)
  then show ?case by simp
next
  case (2 cur c cs)
  then show ?case by (auto simp: wordStarts_dropWhile)
qed

lemma wordStarts_trim: "wordStarts True (trim t) = wordStarts True t"
proof -
  let ?a = "rev (dropWhile isWhiteSpace (rev t))"
  have "t = ?a @ rev (takeWhile isWhiteSpace (rev t))"
    by (metis rev_append rev_rev_ident takeWhile_dropWhile_id)
  moreover have "\<forall>y \<in> set (rev (takeWhile isWhiteSpace (rev t))). isWhiteSpace y"
    by (auto dest: set_takeWhileD)
  ultimately have "wordStarts True t = wordStarts True ?a"
    by (metis wordStarts_append_ws)
  then show ?thesis
    by (simp add: trim_def wordStarts_dropWhile)
qed

lemma trim_empty_wordStarts: "trim t = [] \<Longrightarrow> wordStarts True t = 0"
  by (metis wordStarts_trim wordStarts.simps(1))

text \<open>\<^verbatim>\<open>countWords\<close> computes the number of white-space-separated words.\<close>

lemma countWords_spec: "countWords (Some t) = wordCount_spec t"
  by (auto simp: countWords_def wordCount_spec_def Let_def split_ws_def splitWs_count
      wordStarts_trim trim_empty_wordStarts)

lemma truthyTrim_spec: "truthyTrim x = nonEmpty_spec x"
  by (auto simp: truthyTrim_def nonEmpty_spec_def split: option.splits)

lemma wordCount_pos_nonEmpty: "0 < wordCount_spec c \<Longrightarrow> trim c \<noteq> []"
  using trim_empty_wordStarts[of c] by (auto simp: wordCount_spec_def)

lemma isValidContentStart_spec: "isValidContentStart b = contentBearing_spec b"
  by (auto simp: isValidContentStart_def contentBearing_spec_def Let_def truthyTrim_spec
      countWords_spec nonEmpty_spec_def split: option.splits)

lemma first10Valid_eq: "first10Valid b = isValidContentStart b"
  by (simp add: first10Valid_def isValidContentStart_def)

lemma nextIsValid_eq: "nextIsValid b = isValidContentStart b"
  by (simp add: nextIsValid_def isValidContentStart_def)

lemma shouldIncludeBlock_spec: "shouldIncludeBlock b = kept_spec b"
  using wordCount_pos_nonEmpty
  by (auto simp: shouldIncludeBlock_def kept_spec_def Let_def truthyTrim_spec countWords_spec
      nonEmpty_spec_def split: option.splits)

subsection \<open>The example data\<close>

lemma wordStarts_nWords: "wordStarts True (nWords n @ s) = n + wordStarts True s"
  by (induction n) (simp_all add: nWords_def js_def isWhiteSpace_def)

lemma wordCount_nWords: "wordCount_spec (nWords n) = n"
  using wordStarts_nWords[of n "[]"] by (simp add: wordCount_spec_def)

lemma shortBlock_not_bearing: "\<not> contentBearing_spec shortBlock"
  by (simp add: contentBearing_spec_def shortBlock_def emptyBlock_def nonEmpty_spec_def
      wordCount_spec_def js_def isWhiteSpace_def)

lemma titleBlock_bearing: "contentBearing_spec titleBlock"
  by (simp add: contentBearing_spec_def titleBlock_def emptyBlock_def nonEmpty_spec_def
      js_def trim_def isWhiteSpace_def)

section \<open>The scan of the region detector\<close>

lemma getBlock_in: "0 \<le> i \<Longrightarrow> i < int (length blocks) \<Longrightarrow> getBlock blocks i = Inr (blocks ! nat i)"
  by (simp add: getBlock_def)

lemma first10Loop_result:
  "0 \<le> i \<Longrightarrow>
   first10Loop blocks i =
     Inr (\<exists>j. i \<le> j \<and> j < min 10 (int (length blocks)) \<and> isValidContentStart (blocks ! nat j))"
proof (induction blocks i rule: first10Loop.induct)
  case (1 blocks i)
  show ?case
  proof (cases "i < min 10 (int (length blocks))")
    case False
    then show ?thesis by (subst first10Loop.simps) auto
  next
    case True
    then have g: "getBlock blocks i = Inr (blocks ! nat i)"
      using 1(2) by (simp add: getBlock_in)
    show ?thesis
    proof (cases "isValidContentStart (blocks ! nat i)")
      case v: True
      then show ?thesis
        using True g 1(2) by (subst first10Loop.simps) (auto simp: first10Valid_eq)
    next
      case v: False
      have ih: "first10Loop blocks (i + 1) =
        Inr (\<exists>j. i + 1 \<le> j \<and> j < min 10 (int (length blocks)) \<and> isValidContentStart (blocks ! nat j))"
        using 1(1)[OF True g] v 1(2) by (simp add: first10Valid_eq)
      have "(\<exists>j. i + 1 \<le> j \<and> j < min 10 (int (length blocks)) \<and> isValidContentStart (blocks ! nat j))
          = (\<exists>j. i \<le> j \<and> j < min 10 (int (length blocks)) \<and> isValidContentStart (blocks ! nat j))"
        using v by (metis add1_zle_eq order_le_less)
      then show ?thesis
        using True g v ih by (subst first10Loop.simps) (simp add: first10Valid_eq)
    qed
  qed
qed

lemma lookAhead_result:
  "0 \<le> j \<Longrightarrow> e \<le> int (length blocks) - 1 \<Longrightarrow>
   \<exists>r. lookAhead blocks j e = Inr r \<and> lookAhead_post blocks j e r"
proof (induction blocks j e rule: lookAhead.induct)
  case (1 blocks j e)
  show ?case
  proof (cases "j \<le> e")
    case False
    then show ?thesis by (subst lookAhead.simps) (auto simp: lookAhead_post_def)
  next
    case True
    then have g: "getBlock blocks j = Inr (blocks ! nat j)"
      using 1(2,3) by (simp add: getBlock_in)
    show ?thesis
    proof (cases "isValidContentStart (blocks ! nat j)")
      case v: True
      then show ?thesis
        using True g by (subst lookAhead.simps) (auto simp: nextIsValid_eq lookAhead_post_def)
    next
      case v: False
      obtain r where r: "lookAhead blocks (j + 1) e = Inr r"
        and rr: "lookAhead_post blocks (j + 1) e r"
        using 1(1)[OF True g] v 1(2,3) by (auto simp: nextIsValid_eq)
      have stepk: "\<And>k. j \<le> k \<Longrightarrow> k = j \<or> j + 1 \<le> k" by auto
      have "lookAhead blocks j e = Inr r"
        using True g v r by (subst lookAhead.simps) (simp add: nextIsValid_eq)
      moreover have "lookAhead_post blocks j e r"
        unfolding lookAhead_post_def
      proof (intro conjI impI allI)
        fix k assume "r = None" "j \<le> k \<and> k \<le> e"
        then show "\<not> isValidContentStart (blocks ! nat k)"
          using rr v stepk[of k] by (auto simp: lookAhead_post_def)
      next
        fix n assume n: "r = Some n"
        then show "j \<le> n" "n \<le> e" "isValidContentStart (blocks ! nat n)"
          using rr by (auto simp: lookAhead_post_def)
      next
        fix n k assume n: "r = Some n" and k: "j \<le> k \<and> k < n"
        then show "\<not> isValidContentStart (blocks ! nat k)"
          using rr v stepk[of k] by (auto simp: lookAhead_post_def)
      qed
      ultimately show ?thesis by blast
    qed
  qed
qed


lemma startOrExtend_regions [simp]:
  "regions (startOrExtend blocks found i block st) = regions st"
  by (simp add: startOrExtend_def Let_def split: option.splits)

lemma startOrExtend_inv:
  assumes "0 \<le> i" "i < int (length blocks)" "scan_inv blocks i st"
  shows "scan_inv blocks i (startOrExtend blocks found i block st)"
proof (cases "isValidContentStart block")
  case False
  then show ?thesis using assms by (simp add: startOrExtend_def)
next
  case True
  show ?thesis
  proof (cases "currentRegion st")
    case None
    then show ?thesis
      using True assms
      by (auto simp: startOrExtend_def scan_inv_def region_ok_def Let_def)
  next
    case (Some cur)
    then show ?thesis
      using True assms
      by (auto simp: startOrExtend_def scan_inv_def region_ok_def Let_def)
  qed
qed

lemma checkRegionEnd_inv:
  assumes "0 \<le> i" "i < int (length blocks)" "scan_inv blocks i st"
  shows "\<exists>st'. checkRegionEnd blocks i st = Inr st' \<and> scan_inv blocks (i + 1) st'"
proof (cases "currentRegion st")
  case None
  then show ?thesis
    using assms by (fastforce simp: checkRegionEnd_def scan_inv_def)
next
  case (Some cur)
  note cur = this
  have c: "region_ok blocks cur" "r_start cur \<le> i" "r_start cur \<le> lastValidContentIndex cur"
    "lastValidContentIndex cur \<le> int (length blocks) - 1" "1 \<le> extendRange cur"
    "\<forall>r \<in> set (regions st). r_end r < r_start cur"
    using assms(3) cur by (auto simp: scan_inv_def)
  show ?thesis
  proof (cases "i \<ge> r_end cur")
    case False
    then show ?thesis
      using assms cur by (fastforce simp: checkRegionEnd_def scan_inv_def)
  next
    case True
    let ?base = "lastValidContentIndex cur"
    let ?e = "min (?base + 10) (int (length blocks) - 1)"
    have "0 \<le> ?base + 1" using c by (auto simp: region_ok_def)
    moreover have "?e \<le> int (length blocks) - 1" by simp
    ultimately obtain r where r: "lookAhead blocks (?base + 1) ?e = Inr r"
      and post: "lookAhead_post blocks (?base + 1) ?e r"
      using lookAhead_result by blast
    show ?thesis
    proof (cases r)
      case None
      then have "checkRegionEnd blocks i st = Inr (st\<lparr>regions := regions st @ [cur], currentRegion := None\<rparr>)"
        using cur True r by (simp add: checkRegionEnd_def Let_def)
      moreover have "scan_inv blocks (i + 1) (st\<lparr>regions := regions st @ [cur], currentRegion := None\<rparr>)"
        using assms(3) c True by (auto simp: scan_inv_def sorted_wrt_append)
      ultimately show ?thesis by blast
    next
      case (Some n)
      then have n: "?base + 1 \<le> n" "n \<le> ?e"
        using post by (auto simp: lookAhead_post_def)
      let ?st' = "st\<lparr>currentRegion := Some (cur\<lparr>r_end := min (n + extendRange cur - 1) (int (length blocks) - 1),
                                    lastValidContentIndex := n\<rparr>)\<rparr>"
      have "checkRegionEnd blocks i st = Inr ?st'"
        using cur True r Some by (simp add: checkRegionEnd_def Let_def)
      moreover have "scan_inv blocks (i + 1) ?st'"
        using assms(3) c True n by (auto simp: scan_inv_def region_ok_def)
      ultimately show ?thesis by blast
    qed
  qed
qed

lemma loopBody_inv:
  assumes "0 \<le> i" "i < int (length blocks)" "scan_inv blocks i st"
  shows "\<exists>st'. loopBody blocks found i st = Inr st' \<and> scan_inv blocks (i + 1) st'"
  using checkRegionEnd_inv[OF assms(1,2) startOrExtend_inv[OF assms]] assms(1,2)
  by (simp add: loopBody_def getBlock_in)

lemma scanLoop_inv:
  "0 \<le> i \<Longrightarrow> i \<le> int (length blocks) \<Longrightarrow> scan_inv blocks i st \<Longrightarrow>
   \<exists>st'. scanLoop blocks found i st = Inr st' \<and> scan_inv blocks (int (length blocks)) st'"
proof (induction blocks found i st rule: scanLoop.induct)
  case (1 blocks found i st)
  show ?case
  proof (cases "i < int (length blocks)")
    case False
    then have "i = int (length blocks)" using 1(3) by simp
    then show ?thesis using 1(4) by (subst scanLoop.simps) simp
  next
    case True
    obtain st1 where b: "loopBody blocks found i st = Inr st1"
      and i1: "scan_inv blocks (i + 1) st1"
      using loopBody_inv[OF 1(2) True 1(4)] by blast
    obtain st' where "scanLoop blocks found (i + 1) st1 = Inr st'"
      "scan_inv blocks (int (length blocks)) st'"
      using 1(1)[OF True b] 1(2) True i1 by auto
    then show ?thesis
      using True b by (subst scanLoop.simps) simp
  qed
qed

lemma initialScan_inv: "scan_inv blocks 0 initialScan"
  by (simp add: scan_inv_def initialScan_def)

lemma scanLoop_step:
  "i < int (length blocks) \<Longrightarrow> loopBody blocks found i st = Inr st' \<Longrightarrow>
   scanLoop blocks found i st = scanLoop blocks found (i + 1) st'"
  by (subst scanLoop.simps) simp

lemma scanLoop_end: "scanLoop blocks found (int (length blocks)) st = Inr st"
  by (subst scanLoop.simps) simp

lemma loopBody_skip:
  assumes "0 \<le> i" "i < int (length blocks)" "\<not> isValidContentStart (blocks ! nat i)"
    and "currentRegion st = None \<or> (\<exists>cur. currentRegion st = Some cur \<and> i < r_end cur)"
  shows "loopBody blocks found i st = Inr st"
  using assms by (auto simp: loopBody_def getBlock_in startOrExtend_def checkRegionEnd_def)

lemma scanLoop_skip:
  assumes "0 \<le> i" "i \<le> k" "k \<le> int (length blocks)"
    and "\<forall>j. i \<le> j \<and> j < k \<longrightarrow> \<not> isValidContentStart (blocks ! nat j)"
    and "currentRegion st = None \<or> (\<exists>cur. currentRegion st = Some cur \<and> k \<le> r_end cur)"
  shows "scanLoop blocks found i st = scanLoop blocks found k st"
  using assms
proof (induction "nat (k - i)" arbitrary: i)
  case 0
  then show ?case by simp
next
  case (Suc n)
  then have lt: "i < k" by linarith
  have "loopBody blocks found i st = Inr st"
    using Suc.prems lt by (intro loopBody_skip) auto
  then have "scanLoop blocks found i st = scanLoop blocks found (i + 1) st"
    using lt Suc.prems by (intro scanLoop_step) auto
  also have "\<dots> = scanLoop blocks found k st"
    using Suc.hyps(2) Suc.prems lt by (intro Suc.hyps(1)) auto
  finally show ?case .
qed

lemma lookAhead_none:
  assumes "0 \<le> j" "e \<le> int (length blocks) - 1"
    and "\<forall>k. j \<le> k \<and> k \<le> e \<longrightarrow> \<not> isValidContentStart (blocks ! nat k)"
  shows "lookAhead blocks j e = Inr None"
proof -
  obtain r where r: "lookAhead blocks j e = Inr r" "lookAhead_post blocks j e r"
    using lookAhead_result[OF assms(1,2)] by blast
  then have "r = None"
    using assms(3) by (cases r) (auto simp: lookAhead_post_def)
  then show ?thesis using r by simp
qed

lemma scanPrefix_inv:
  "k \<le> length blocks \<Longrightarrow> \<exists>st. scanPrefix blocks found k = Inr st \<and> scan_inv blocks (int k) st"
proof (induction k)
  case 0
  then show ?case by (simp add: initialScan_inv)
next
  case (Suc k)
  then obtain st where st: "scanPrefix blocks found k = Inr st" "scan_inv blocks (int k) st"
    by auto
  obtain st' where "loopBody blocks found (int k) st = Inr st'" "scan_inv blocks (int k + 1) st'"
    using loopBody_inv[of "int k" blocks st found] st Suc.prems by auto
  then show ?case using st by (simp add: add.commute)
qed

lemma scanLoop_prefix:
  "k \<le> length blocks \<Longrightarrow>
   scanLoop blocks found 0 initialScan =
     (case scanPrefix blocks found k of Inl e \<Rightarrow> Inl e | Inr st \<Rightarrow> scanLoop blocks found (int k) st)"
proof (induction k)
  case 0
  then show ?case by simp
next
  case (Suc k)
  then obtain st where st: "scanPrefix blocks found k = Inr st"
    using scanPrefix_inv[of k blocks found] by auto
  obtain st' where st': "loopBody blocks found (int k) st = Inr st'"
    using scanPrefix_inv[of "Suc k" blocks found] Suc.prems st by auto
  have "scanLoop blocks found (int k) st = scanLoop blocks found (int k + 1) st'"
    using Suc.prems st' by (intro scanLoop_step) auto
  then show ?case
    using Suc st st' by (simp add: add.commute)
qed

text \<open>The flag \<open>isFirstContentRegion\<close> holds until the first valid block has been seen.\<close>

lemma startOrExtend_first:
  assumes "isFirstContentRegion st \<longrightarrow> currentRegion st = None"
  shows "(isFirstContentRegion (startOrExtend blocks found i block st)
            \<longleftrightarrow> isFirstContentRegion st \<and> \<not> isValidContentStart block)
         \<and> (isFirstContentRegion (startOrExtend blocks found i block st)
            \<longrightarrow> currentRegion (startOrExtend blocks found i block st) = None)"
proof (cases "currentRegion st")
  case None
  then show ?thesis by (simp add: startOrExtend_def Let_def)
next
  case (Some cur)
  then have "\<not> isFirstContentRegion st" using assms by auto
  then show ?thesis using Some by (simp add: startOrExtend_def Let_def)
qed

lemma checkRegionEnd_first:
  assumes "checkRegionEnd blocks i st = Inr st'"
  shows "isFirstContentRegion st' = isFirstContentRegion st
         \<and> (currentRegion st = None \<longrightarrow> currentRegion st' = None)"
proof (cases "currentRegion st")
  case None
  then show ?thesis using assms by (simp add: checkRegionEnd_def)
next
  case (Some cur)
  show ?thesis
  proof (cases "i \<ge> r_end cur")
    case False
    then show ?thesis using assms Some by (simp add: checkRegionEnd_def)
  next
    case True
    show ?thesis
    proof (cases "lookAhead blocks (lastValidContentIndex cur + 1)
              (min (lastValidContentIndex cur + 10) (int (length blocks) - 1))")
      case (Inl e)
      then show ?thesis using assms Some True by (simp add: checkRegionEnd_def Let_def)
    next
      case (Inr r)
      then show ?thesis using assms Some True
        by (cases r) (auto simp: checkRegionEnd_def Let_def)
    qed
  qed
qed

lemma loopBody_first:
  assumes "0 \<le> i" "i < int (length blocks)" "loopBody blocks found i st = Inr st'"
    and "isFirstContentRegion st \<longrightarrow> currentRegion st = None"
  shows "(isFirstContentRegion st' \<longleftrightarrow> isFirstContentRegion st \<and> \<not> isValidContentStart (blocks ! nat i))
         \<and> (isFirstContentRegion st' \<longrightarrow> currentRegion st' = None)"
proof -
  let ?mid = "startOrExtend blocks found i (blocks ! nat i) st"
  have c: "checkRegionEnd blocks i ?mid = Inr st'"
    using assms(1-3) by (simp add: loopBody_def getBlock_in)
  show ?thesis
    using checkRegionEnd_first[OF c] startOrExtend_first[OF assms(4), of blocks found i "blocks ! nat i"]
    by simp
qed

lemma scanPrefix_first:
  "k \<le> length blocks \<Longrightarrow> scanPrefix blocks found k = Inr st \<Longrightarrow>
   (isFirstContentRegion st \<longleftrightarrow> (\<forall>j<k. \<not> isValidContentStart (blocks ! j)))
   \<and> (isFirstContentRegion st \<longrightarrow> currentRegion st = None)"
proof (induction k arbitrary: st)
  case 0
  then show ?case by (auto simp: initialScan_def)
next
  case (Suc k)
  obtain st0 where st0: "scanPrefix blocks found k = Inr st0"
    using scanPrefix_inv[of k blocks found] Suc.prems by auto
  then have b: "loopBody blocks found (int k) st0 = Inr st"
    using Suc.prems by simp
  have ih: "(isFirstContentRegion st0 \<longleftrightarrow> (\<forall>j<k. \<not> isValidContentStart (blocks ! j)))"
    "isFirstContentRegion st0 \<longrightarrow> currentRegion st0 = None"
    using Suc.IH[OF _ st0] Suc.prems by auto
  have "(isFirstContentRegion st \<longleftrightarrow> isFirstContentRegion st0 \<and> \<not> isValidContentStart (blocks ! nat (int k)))
         \<and> (isFirstContentRegion st \<longrightarrow> currentRegion st = None)"
    using Suc.prems by (intro loopBody_first[OF _ _ b ih(2)]) auto
  then show ?case
    using ih(1) by (auto simp: less_Suc_eq)
qed

lemma first10Loop_spec:
  "first10Loop blocks 0 = Inr (\<exists>j < min 10 (length blocks). contentBearing_spec (blocks ! j))"
proof -
  have "(\<exists>j::int. 0 \<le> j \<and> j < min 10 (int (length blocks)) \<and> isValidContentStart (blocks ! nat j))
      = (\<exists>j < min 10 (length blocks). contentBearing_spec (blocks ! j))"
  proof
    assume "\<exists>j::int. 0 \<le> j \<and> j < min 10 (int (length blocks)) \<and> isValidContentStart (blocks ! nat j)"
    then obtain j :: int where "0 \<le> j" "j < min 10 (int (length blocks))" "isValidContentStart (blocks ! nat j)"
      by blast
    then have "nat j < min 10 (length blocks) \<and> contentBearing_spec (blocks ! nat j)"
      by (auto simp: isValidContentStart_spec)
    then show "\<exists>j < min 10 (length blocks). contentBearing_spec (blocks ! j)" by blast
  next
    assume "\<exists>j < min 10 (length blocks). contentBearing_spec (blocks ! j)"
    then obtain j where "j < min 10 (length blocks)" "contentBearing_spec (blocks ! j)" by blast
    then have "0 \<le> int j \<and> int j < min 10 (int (length blocks)) \<and> isValidContentStart (blocks ! nat (int j))"
      by (auto simp: isValidContentStart_spec)
    then show "\<exists>j::int. 0 \<le> j \<and> j < min 10 (int (length blocks)) \<and> isValidContentStart (blocks ! nat j)"
      by blast
  qed
  then show ?thesis using first10Loop_result[of 0 blocks] by simp
qed

subsection \<open>What the returned regions keep from their opening\<close>

lemma allRegions_None: "currentRegion st = None \<Longrightarrow> allRegions st = regions st"
  by (simp add: allRegions_def)

lemma allRegions_Some: "currentRegion st = Some cur \<Longrightarrow> allRegions st = regions st @ [cur]"
  by (simp add: allRegions_def)

text \<open>Replacing the open region by one that keeps what its opening fixed and ends no earlier.\<close>

lemma win_inv_update:
  assumes w: "win_inv blocks found st" and c: "currentRegion st = Some cur"
    and same: "r_start cur' = r_start cur" "isFirstRegion cur' = isFirstRegion cur"
      "extendRange cur' = extendRange cur" "reason cur' = reason cur" "r_end cur \<le> r_end cur'"
    and st': "regions st' = regions st" "currentRegion st' = Some cur'"
      "isFirstContentRegion st' = isFirstContentRegion st"
  shows "win_inv blocks found st'"
proof -
  have a: "allRegions st = regions st @ [cur]" "allRegions st' = regions st @ [cur']"
    using c st' by (simp_all add: allRegions_def)
  have "opened_ok blocks found cur" using w a by (simp add: win_inv_def)
  then have ok: "opened_ok blocks found cur'"
    using same by (auto simp: opened_ok_def)
  have nth: "\<forall>n < length (regions st @ [cur']).
               isFirstRegion ((regions st @ [cur']) ! n) = isFirstRegion ((regions st @ [cur]) ! n)"
    using same(2) by (simp add: nth_append)
  show ?thesis
    using w ok nth unfolding win_inv_def a st'(3) by auto
qed

lemma win_inv_close:
  assumes "win_inv blocks found st" "currentRegion st = Some cur"
  shows "win_inv blocks found (st\<lparr>regions := regions st @ [cur], currentRegion := None\<rparr>)"
  using assms by (simp add: win_inv_def allRegions_def)

lemma win_inv_open:
  assumes w: "win_inv blocks found st" and c: "currentRegion st = None"
    and ok: "opened_ok blocks found new" and f: "isFirstRegion new = isFirstContentRegion st"
  shows "win_inv blocks found (st\<lparr>currentRegion := Some new, isFirstContentRegion := False\<rparr>)"
proof -
  let ?st' = "st\<lparr>currentRegion := Some new, isFirstContentRegion := False\<rparr>"
  have a: "allRegions st = regions st" "allRegions ?st' = regions st @ [new]"
    using c by (simp_all add: allRegions_def)
  have e: "isFirstContentRegion st \<longleftrightarrow> regions st = []"
    and n: "\<forall>n < length (regions st). isFirstRegion (regions st ! n) \<longleftrightarrow> n = 0"
    and o: "\<forall>r \<in> set (regions st). opened_ok blocks found r"
    using w a by (simp_all add: win_inv_def)
  have "\<forall>n < length (regions st @ [new]). isFirstRegion ((regions st @ [new]) ! n) \<longleftrightarrow> n = 0"
  proof (intro allI impI)
    fix n assume "n < length (regions st @ [new])"
    then consider "n < length (regions st)" | "n = length (regions st)" by fastforce
    then show "isFirstRegion ((regions st @ [new]) ! n) \<longleftrightarrow> n = 0"
    proof cases
      case 1
      then show ?thesis using n by (simp add: nth_append)
    next
      case 2
      then show ?thesis using f e by (simp add: nth_append)
    qed
  qed
  then show ?thesis
    unfolding win_inv_def a using o ok by simp
qed

lemma startOrExtend_win:
  assumes i: "0 \<le> i" "i < int (length blocks)"
    and w: "win_inv blocks found st"
    and fst: "isFirstContentRegion st \<longleftrightarrow> (\<forall>j < nat i. \<not> isValidContentStart (blocks ! j))"
  shows "win_inv blocks found (startOrExtend blocks found i (blocks ! nat i) st)"
proof (cases "isValidContentStart (blocks ! nat i)")
  case False
  then show ?thesis using w by (simp add: startOrExtend_def)
next
  case True
  show ?thesis
  proof (cases "currentRegion st")
    case None
    let ?w = "if isFirstContentRegion st \<and> \<not> found then 20 else 10 :: int"
    let ?new = "\<lparr>r_start = i, r_end = min (i + ?w - 1) (int (length blocks) - 1),
                 reason = (if truthyTrim (title (blocks ! nat i)) then title_start else content_start),
                 isFirstRegion = isFirstContentRegion st, extendRange = ?w,
                 lastValidContentIndex = i\<rparr>"
    have ok: "opened_ok blocks found ?new"
      using i True fst by (simp add: opened_ok_def)
    have "startOrExtend blocks found i (blocks ! nat i) st
            = st\<lparr>currentRegion := Some ?new, isFirstContentRegion := False\<rparr>"
      using True None by (simp add: startOrExtend_def Let_def)
    then show ?thesis
      using win_inv_open[OF w None ok] by simp
  next
    case (Some cur)
    let ?newEnd = "min (i + extendRange cur - 1) (int (length blocks) - 1)"
    show ?thesis
    proof (cases "?newEnd > r_end cur")
      case g: True
      have eq: "startOrExtend blocks found i (blocks ! nat i) st
                  = st\<lparr>currentRegion := Some (cur\<lparr>r_end := ?newEnd, lastValidContentIndex := i\<rparr>)\<rparr>"
        using True Some g unfolding startOrExtend_def Let_def by (simp only: if_True option.case)
      show ?thesis
        unfolding eq using g
        by (intro win_inv_update[OF w Some, where cur' = "cur\<lparr>r_end := ?newEnd, lastValidContentIndex := i\<rparr>"])
           simp_all
    next
      case g: False
      have eq: "startOrExtend blocks found i (blocks ! nat i) st
                  = st\<lparr>currentRegion := Some (cur\<lparr>lastValidContentIndex := i\<rparr>)\<rparr>"
        using True Some g unfolding startOrExtend_def Let_def by (simp only: if_True if_False option.case)
      show ?thesis
        unfolding eq
        by (intro win_inv_update[OF w Some, where cur' = "cur\<lparr>lastValidContentIndex := i\<rparr>"])
           simp_all
    qed
  qed
qed

lemma checkRegionEnd_win:
  assumes i: "0 \<le> i" "i < int (length blocks)"
    and s: "scan_inv blocks i st" and w: "win_inv blocks found st"
    and r: "checkRegionEnd blocks i st = Inr st'"
  shows "win_inv blocks found st'"
proof (cases "currentRegion st")
  case None
  then show ?thesis using r w by (simp add: checkRegionEnd_def)
next
  case (Some cur)
  show ?thesis
  proof (cases "i \<ge> r_end cur")
    case False
    then show ?thesis using r w Some by (simp add: checkRegionEnd_def)
  next
    case True
    let ?base = "lastValidContentIndex cur"
    let ?e = "min (?base + 10) (int (length blocks) - 1)"
    have c: "r_start cur \<le> ?base" "0 \<le> r_start cur"
      using s Some by (auto simp: scan_inv_def region_ok_def)
    then have "0 \<le> ?base + 1" by simp
    moreover have "?e \<le> int (length blocks) - 1" by simp
    ultimately obtain la where la: "lookAhead blocks (?base + 1) ?e = Inr la"
      and post: "lookAhead_post blocks (?base + 1) ?e la"
      using lookAhead_result by blast
    show ?thesis
    proof (cases la)
      case None
      then have "st' = st\<lparr>regions := regions st @ [cur], currentRegion := None\<rparr>"
        using r Some True la by (simp add: checkRegionEnd_def Let_def)
      then show ?thesis using win_inv_close[OF w Some] by simp
    next
      case (Some n)
      then have n: "?base + 1 \<le> n" using post by (simp add: lookAhead_post_def)
      let ?cur' = "cur\<lparr>r_end := min (n + extendRange cur - 1) (int (length blocks) - 1),
                        lastValidContentIndex := n\<rparr>"
      have st': "st' = st\<lparr>currentRegion := Some ?cur'\<rparr>"
        using r \<open>currentRegion st = Some cur\<close> True la Some by (simp add: checkRegionEnd_def Let_def)
      have "opened_ok blocks found cur"
        using w \<open>currentRegion st = Some cur\<close> by (simp add: win_inv_def allRegions_def)
      then have ok: "opened_ok blocks found cur" .
      show ?thesis
      proof -
        have a: "allRegions st = regions st @ [cur]" "allRegions st' = regions st @ [?cur']"
          using \<open>currentRegion st = Some cur\<close> st' by (simp_all add: allRegions_def)
        have "opened_ok blocks found ?cur'"
          using \<open>opened_ok blocks found cur\<close> n c by (auto simp: opened_ok_def)
        moreover have "\<forall>k < length (regions st @ [?cur']).
               isFirstRegion ((regions st @ [?cur']) ! k) = isFirstRegion ((regions st @ [cur]) ! k)"
          by (simp add: nth_append)
        moreover have "isFirstContentRegion st' = isFirstContentRegion st" using st' by simp
        ultimately show ?thesis
          using w unfolding win_inv_def a by auto
      qed
    qed
  qed
qed

lemma loopBody_win:
  assumes i: "0 \<le> i" "i < int (length blocks)"
    and s: "scan_inv blocks i st" and w: "win_inv blocks found st"
    and fst: "isFirstContentRegion st \<longleftrightarrow> (\<forall>j < nat i. \<not> isValidContentStart (blocks ! j))"
    and r: "loopBody blocks found i st = Inr st'"
  shows "win_inv blocks found st'"
proof -
  let ?mid = "startOrExtend blocks found i (blocks ! nat i) st"
  have c: "checkRegionEnd blocks i ?mid = Inr st'"
    using r i by (simp add: loopBody_def getBlock_in)
  show ?thesis
    using checkRegionEnd_win[OF i startOrExtend_inv[OF i s] startOrExtend_win[OF i w fst] c] .
qed

lemma initialScan_win: "win_inv blocks found initialScan"
  by (simp add: win_inv_def allRegions_def initialScan_def)

lemma scanPrefix_win:
  "k \<le> length blocks \<Longrightarrow> scanPrefix blocks found k = Inr st \<Longrightarrow> win_inv blocks found st"
proof (induction k arbitrary: st)
  case 0
  then show ?case using initialScan_win by auto
next
  case (Suc k)
  obtain st0 where st0: "scanPrefix blocks found k = Inr st0" "scan_inv blocks (int k) st0"
    using scanPrefix_inv[of k blocks found] Suc.prems by auto
  have b: "loopBody blocks found (int k) st0 = Inr st"
    using Suc.prems st0 by simp
  have w0: "win_inv blocks found st0" using Suc.IH[OF _ st0(1)] Suc.prems by simp
  have f: "isFirstContentRegion st0 \<longleftrightarrow> (\<forall>j < nat (int k). \<not> isValidContentStart (blocks ! j))"
    using scanPrefix_first[OF _ st0(1)] Suc.prems by simp
  show ?case
    using Suc.prems by (intro loopBody_win[OF _ _ st0(2) w0 f b]) auto
qed

text \<open>The detector returns the regions of the state after the last iteration.\<close>

lemma detectContentRegions_prefix:
  assumes "first10Loop blocks 0 = Inr found" "scanPrefix blocks found (length blocks) = Inr st"
  shows "detectContentRegions blocks = Inr (allRegions st)"
proof -
  have "scanLoop blocks found 0 initialScan = scanLoop blocks found (int (length blocks)) st"
    using scanLoop_prefix[of "length blocks" blocks found] assms(2) by simp
  then have "scanLoop blocks found 0 initialScan = Inr st"
    by (simp add: scanLoop_end)
  then show ?thesis
    using assms(1) by (simp add: detectContentRegions_def allRegions_def split: option.splits)
qed

text \<open>A start index, once among the regions, stays among them.\<close>

lemma loopBody_starts:
  assumes i: "0 \<le> i" "i < int (length blocks)" and r: "loopBody blocks found i st = Inr st'"
  shows "r_start ` set (allRegions st) \<subseteq> r_start ` set (allRegions st')"
    and "currentRegion st = None \<Longrightarrow> isValidContentStart (blocks ! nat i)
           \<Longrightarrow> i \<in> r_start ` set (allRegions st')"
proof -
  let ?mid = "startOrExtend blocks found i (blocks ! nat i) st"
  have c: "checkRegionEnd blocks i ?mid = Inr st'"
    using r i by (simp add: loopBody_def getBlock_in)
  have m1: "r_start ` set (allRegions st) \<subseteq> r_start ` set (allRegions ?mid)"
    by (auto simp: startOrExtend_def allRegions_def Let_def split: option.splits)
  have m2: "currentRegion st = None \<Longrightarrow> isValidContentStart (blocks ! nat i)
           \<Longrightarrow> i \<in> r_start ` set (allRegions ?mid)"
    by (simp add: startOrExtend_def allRegions_def Let_def)
  have m3: "r_start ` set (allRegions ?mid) \<subseteq> r_start ` set (allRegions st')"
  proof (cases "currentRegion ?mid")
    case None
    then show ?thesis using c by (simp add: checkRegionEnd_def)
  next
    case (Some cur)
    show ?thesis
    proof (cases "i \<ge> r_end cur")
      case False
      then show ?thesis using c Some by (simp add: checkRegionEnd_def)
    next
      case True
      show ?thesis
      proof (cases "lookAhead blocks (lastValidContentIndex cur + 1)
              (min (lastValidContentIndex cur + 10) (int (length blocks) - 1))")
        case (Inl e)
        then show ?thesis using c Some True by (simp add: checkRegionEnd_def Let_def)
      next
        case (Inr la)
        then show ?thesis using c Some True
          by (cases la) (auto simp: checkRegionEnd_def Let_def allRegions_def)
      qed
    qed
  qed
  show "r_start ` set (allRegions st) \<subseteq> r_start ` set (allRegions st')"
    using m1 m3 by blast
  show "currentRegion st = None \<Longrightarrow> isValidContentStart (blocks ! nat i)
           \<Longrightarrow> i \<in> r_start ` set (allRegions st')"
    using m2 m3 by blast
qed

lemma scanPrefix_starts:
  assumes "scanPrefix blocks found k = Inr st" "k + m \<le> length blocks"
    "scanPrefix blocks found (k + m) = Inr st'"
  shows "r_start ` set (allRegions st) \<subseteq> r_start ` set (allRegions st')"
  using assms(2,3)
proof (induction m arbitrary: st')
  case 0
  then show ?case using assms(1) by simp
next
  case (Suc m)
  obtain st1 where st1: "scanPrefix blocks found (k + m) = Inr st1"
    using scanPrefix_inv[of "k + m" blocks found] Suc.prems by auto
  have b: "loopBody blocks found (int (k + m)) st1 = Inr st'"
    using Suc.prems st1 by simp
  have "r_start ` set (allRegions st1) \<subseteq> r_start ` set (allRegions st')"
    using Suc.prems by (intro loopBody_starts(1)[OF _ _ b]) auto
  then show ?case using Suc.IH[OF _ st1] Suc.prems by auto
qed



section \<open>The loop of the link-pattern pruner\<close>












subsection \<open>The pruned region in the specification's terms\<close>













section \<open>The link-pattern-only test\<close>

lemma nextLinkOnlyLoop_result:
  "0 \<le> j \<Longrightarrow> hi \<le> int (length blocks) - 1 \<Longrightarrow>
   nextLinkOnlyLoop blocks j hi = Inr (\<exists>k \<in> {j .. hi}. truthy (link (blocks ! nat k)))"
proof (induction blocks j hi rule: nextLinkOnlyLoop.induct)
  case (1 blocks j hi)
  show ?case
  proof (cases "j \<le> hi")
    case False
    then show ?thesis by (subst nextLinkOnlyLoop.simps) simp
  next
    case True
    then have g: "getBlock blocks j = Inr (blocks ! nat j)"
      using 1(2,3) by (simp add: getBlock_in)
    show ?thesis
    proof (cases "truthy (link (blocks ! nat j))")
      case t: True
      then have "\<exists>k \<in> {j .. hi}. truthy (link (blocks ! nat k))"
        using True by (intro bexI[of _ j]) simp_all
      then show ?thesis
        using True g t by (subst nextLinkOnlyLoop.simps) simp
    next
      case f: False
      have ih: "nextLinkOnlyLoop blocks (j + 1) hi =
                  Inr (\<exists>k \<in> {j + 1 .. hi}. truthy (link (blocks ! nat k)))"
        using 1(1)[OF True g f] 1(2,3) by simp
      have "{j .. hi} = insert j {j + 1 .. hi}" using True by auto
      then have "(\<exists>k \<in> {j .. hi}. truthy (link (blocks ! nat k)))
               = (\<exists>k \<in> {j + 1 .. hi}. truthy (link (blocks ! nat k)))"
        using f by simp
      then show ?thesis
        using True g f ih by (subst nextLinkOnlyLoop.simps) simp
    qed
  qed
qed

text \<open>The block at \<open>i\<close> or one of the next three has a link.\<close>

lemma linked_spec_int:
  assumes "i < length blocks"
  shows "linked_spec blocks i \<longleftrightarrow>
           truthy (link (blocks ! i))
           \<or> (\<exists>k \<in> {int i + 1 .. min (int i + 3) (int (length blocks) - 1)}. truthy (link (blocks ! nat k)))"
proof
  assume "linked_spec blocks i"
  then obtain j where j: "i \<le> j" "j < min (i + 4) (length blocks)" "truthy (link (blocks ! j))"
    by (auto simp: linked_spec_def)
  show "truthy (link (blocks ! i))
           \<or> (\<exists>k \<in> {int i + 1 .. min (int i + 3) (int (length blocks) - 1)}. truthy (link (blocks ! nat k)))"
  proof (cases "j = i")
    case True
    then show ?thesis using j by simp
  next
    case False
    then have "int j \<in> {int i + 1 .. min (int i + 3) (int (length blocks) - 1)}"
      using j by auto
    moreover have "truthy (link (blocks ! nat (int j)))" using j by simp
    ultimately show ?thesis by blast
  qed
next
  assume "truthy (link (blocks ! i))
           \<or> (\<exists>k \<in> {int i + 1 .. min (int i + 3) (int (length blocks) - 1)}. truthy (link (blocks ! nat k)))"
  then show "linked_spec blocks i"
  proof
    assume "truthy (link (blocks ! i))"
    moreover have "i \<in> {i ..< min (i + 4) (length blocks)}" using assms by simp
    ultimately show ?thesis unfolding linked_spec_def by blast
  next
    assume "\<exists>k \<in> {int i + 1 .. min (int i + 3) (int (length blocks) - 1)}. truthy (link (blocks ! nat k))"
    then obtain k where k: "int i + 1 \<le> k" "k \<le> min (int i + 3) (int (length blocks) - 1)"
      "truthy (link (blocks ! nat k))" by auto
    then have "nat k \<in> {i ..< min (i + 4) (length blocks)}" by auto
    then show ?thesis unfolding linked_spec_def using k(3) by blast
  qed
qed

lemma onlyLinkLoop_result:
  "i \<le> length blocks \<Longrightarrow>
   onlyLinkLoop blocks (int i) (l, c) =
     Inr (l + int (length (filter (\<lambda>k. counts_spec (blocks ! k) \<and> linked_spec blocks k) [i ..< length blocks])),
          c + int (length (filter (\<lambda>k. counts_spec (blocks ! k)) [i ..< length blocks])))"
proof (induction "length blocks - i" arbitrary: i l c)
  case 0
  then have "i = length blocks" by simp
  then show ?case by (subst onlyLinkLoop.simps) simp
next
  case (Suc n)
  then have lt: "i < length blocks" by simp
  have g: "getBlock blocks (int i) = Inr (blocks ! i)" using lt by (simp add: getBlock_def)
  have up: "[i ..< length blocks] = i # [Suc i ..< length blocks]"
    using lt by (simp add: upt_conv_Cons)
  have ih: "\<And>l c. onlyLinkLoop blocks (int i + 1) (l, c) =
     Inr (l + int (length (filter (\<lambda>k. counts_spec (blocks ! k) \<and> linked_spec blocks k) [Suc i ..< length blocks])),
          c + int (length (filter (\<lambda>k. counts_spec (blocks ! k)) [Suc i ..< length blocks])))"
    using Suc.hyps(1)[of "Suc i"] Suc.hyps(2) lt by (simp add: add.commute)
  have cnt: "(truthyTrim (content (blocks ! i)) \<or> truthyTrim (title (blocks ! i))) = counts_spec (blocks ! i)"
    by (auto simp: counts_spec_def truthyTrim_spec)
  have nl: "nextLinkOnlyLoop blocks (int i + 1) (min (int i + 3) (int (length blocks) - 1)) =
              Inr (\<exists>k \<in> {int i + 1 .. min (int i + 3) (int (length blocks) - 1)}. truthy (link (blocks ! nat k)))"
    by (intro nextLinkOnlyLoop_result) auto
  note lk = linked_spec_int[OF lt]
  show ?case
  proof (cases "counts_spec (blocks ! i)")
    case False
    then show ?thesis
      using lt g cnt ih by (subst onlyLinkLoop.simps) (simp add: up)
  next
    case True
    show ?thesis
    proof (cases "truthy (link (blocks ! i))")
      case t: True
      then have "linked_spec blocks i" using lk by simp
      then show ?thesis
        using lt g cnt ih True t by (subst onlyLinkLoop.simps) (simp add: up)
    next
      case f: False
      then show ?thesis
        using lt g cnt ih True nl lk by (subst onlyLinkLoop.simps) (simp add: up del: bex_simps)
    qed
  qed
qed

lemma checkOnlyLinkPatterns_spec: "checkOnlyLinkPatterns blocks = Inr (linkOnly_spec blocks)"
  using onlyLinkLoop_result[of 0 blocks 0 0]
  by (simp add: checkOnlyLinkPatterns_def linkOnly_spec_def contentCount_spec_def
      linkedCount_spec_def)

lemma linkOnly_spec_int:
  "linkOnly_spec blocks \<longleftrightarrow>
     0 < contentCount_spec blocks \<and> 7 * contentCount_spec blocks < 10 * linkedCount_spec blocks"
proof (cases "0 < contentCount_spec blocks")
  case False
  then show ?thesis by (simp add: linkOnly_spec_def)
next
  case True
  then have "real (linkedCount_spec blocks) / real (contentCount_spec blocks) > 7 / 10
      \<longleftrightarrow> 7 * real (contentCount_spec blocks) < 10 * real (linkedCount_spec blocks)"
    by (simp add: field_simps)
  also have "\<dots> \<longleftrightarrow> 7 * contentCount_spec blocks < 10 * linkedCount_spec blocks"
    by (metis (mono_tags, opaque_lifting) of_nat_less_iff of_nat_mult of_nat_numeral)
  finally show ?thesis using True by (simp add: linkOnly_spec_def)
qed

lemma map_fb_block_noRegionFilter:
  "map fb_block (noRegionFilter blocks) = filter kept_spec blocks"
proof -
  have "map fb_block (noRegionFilter blocks) =
          map fst (zip (filter shouldIncludeBlock blocks) [0 ..< length (filter shouldIncludeBlock blocks)])"
    by (simp add: noRegionFilter_def case_prod_unfold comp_def)
  also have "\<dots> = filter shouldIncludeBlock blocks"
    by simp
  finally show ?thesis
    by (simp add: shouldIncludeBlock_spec[abs_def])
qed

subsection \<open>The comparison in double precision\<close>

text \<open>
  The source compares the rounded quotient with the rounded literal.  For every rounding
  \<open>rnd\<close> that is monotone and moves a number between 0 and 1 by at most \<open>2\<^sup>-\<^sup>5\<^sup>3\<close>, as
  rounding to the nearest double does, the comparison has the result of the exact one as
  long as the array has fewer than \<open>2\<^sup>3\<^sup>2\<close> blocks.
\<close>

lemma rounded_comparison_exact:
  fixes rnd :: "real \<Rightarrow> real" and l c :: nat
  assumes mono: "\<And>x y. x \<le> y \<Longrightarrow> rnd x \<le> rnd y"
    and err: "\<And>x. 0 \<le> x \<Longrightarrow> x \<le> 1 \<Longrightarrow> \<bar>rnd x - x\<bar> \<le> 1 / 2 ^ 53"
    and c: "0 < c" "c < 2 ^ 32" and l: "l \<le> c"
  shows "rnd (real l / real c) > rnd (7 / 10) \<longleftrightarrow> real l / real c > 7 / 10"
proof
  assume "rnd (real l / real c) > rnd (7 / 10)"
  then show "real l / real c > 7 / 10"
    using mono[of "real l / real c" "7 / 10"] by (meson not_le)
next
  assume gt: "real l / real c > 7 / 10"
  let ?q = "real l / real c"
  have q01: "0 \<le> ?q" "?q \<le> 1" using c l by simp_all
  have "7 * real c < 10 * real l"
    using gt c by (simp add: field_simps)
  then have "7 * c < 10 * l"
    by (metis (mono_tags, opaque_lifting) of_nat_less_iff of_nat_mult of_nat_numeral)
  then have "7 * c + 1 \<le> 10 * l" by simp
  then have "7 * real c + 1 \<le> 10 * real l"
    by (metis (mono_tags, opaque_lifting) of_nat_le_iff of_nat_mult of_nat_numeral of_nat_add of_nat_1)
  then have gap: "?q - 7 / 10 \<ge> 1 / (10 * real c)"
    using c by (simp add: field_simps)
  have "real c < 2 ^ 32"
    using c(2) by (metis of_nat_less_iff of_nat_numeral of_nat_power)
  then have g1: "1 / (10 * real c) > 1 / (10 * 2 ^ 32)"
    using c(1) by (simp add: field_simps)
  define eps :: real where "eps = 1 / 2 ^ 53"
  have g2: "(1::real) / (10 * 2 ^ 32) > 2 * eps" by (simp add: eps_def)
  have big: "?q - 7 / 10 > 2 * eps" using gap g1 g2 by linarith
  have "\<bar>rnd ?q - ?q\<bar> \<le> eps"
    using err[OF q01] by (simp only: eps_def)
  then have e1: "rnd ?q \<ge> ?q - eps" by linarith
  have "(0::real) \<le> 7 / 10" "(7::real) / 10 \<le> 1" by simp_all
  then have "\<bar>rnd (7 / 10) - 7 / 10\<bar> \<le> eps"
    using err[of "7 / 10"] by (simp only: eps_def)
  then have e2: "rnd (7 / 10) \<le> 7 / 10 + eps" by linarith
  show "rnd ?q > rnd (7 / 10)"
    using big e1 e2 by linarith
qed


lemma linkedCount_le: "linkedCount_spec blocks \<le> contentCount_spec blocks"
proof -
  have "filter (\<lambda>i. counts_spec (blocks ! i) \<and> linked_spec blocks i) [0 ..< length blocks]
      = filter (\<lambda>i. linked_spec blocks i) (filter (\<lambda>i. counts_spec (blocks ! i)) [0 ..< length blocks])"
    by (simp add: conj_commute)
  then show ?thesis
    unfolding linkedCount_spec_def contentCount_spec_def
    by (metis length_filter_le)
qed

lemma contentCount_le: "contentCount_spec blocks \<le> length blocks"
  unfolding contentCount_spec_def
  by (metis length_filter_le length_upt minus_nat.diff_0)

lemma linkOnly_spec_rounded:
  fixes rnd :: "real \<Rightarrow> real"
  assumes mono: "\<And>x y. x \<le> y \<Longrightarrow> rnd x \<le> rnd y"
    and err: "\<And>x. 0 \<le> x \<Longrightarrow> x \<le> 1 \<Longrightarrow> \<bar>rnd x - x\<bar> \<le> 1 / 2 ^ 53"
    and len: "length blocks < 2 ^ 32"
  shows "(0 < contentCount_spec blocks
          \<and> rnd (real (linkedCount_spec blocks) / real (contentCount_spec blocks)) > rnd (7 / 10))
         \<longleftrightarrow> linkOnly_spec blocks"
proof (cases "0 < contentCount_spec blocks")
  case False
  then show ?thesis by (simp add: linkOnly_spec_def)
next
  case True
  have "contentCount_spec blocks < 2 ^ 32"
    using contentCount_le[of blocks] len by simp
  then show ?thesis
    using rounded_comparison_exact[of rnd "contentCount_spec blocks" "linkedCount_spec blocks",
        OF mono err True _ linkedCount_le] True
    by (simp add: linkOnly_spec_def)
qed

section \<open>The retry loop of the lightweight fetch\<close>

lemma attemptLoop_fail_step:
  assumes "attempt \<le> maxRetries" "tryAttempt (net attempt) = Inl message"
  shows "attemptLoop lower net d maxRetries attempt tr =
         attemptLoop lower net d maxRetries (attempt + 1)
           (tr @ [HttpGet requestConfig, Sleep (d * attempt)])"
  using assms by (subst attemptLoop.simps) simp

lemma attemptLoop_fail_last:
  assumes "attempt = maxRetries + 1" "tryAttempt (net attempt) = Inl message"
  shows "attemptLoop lower net d maxRetries attempt tr =
         (Some (CrawlFailure non_browser message (Some (shouldFallbackToBrowser lower message))),
          tr @ [HttpGet requestConfig])"
  using assms by (subst attemptLoop.simps) simp

lemma attemptLoop_success:
  assumes "attempt \<le> maxRetries + 1" "tryAttempt (net attempt) = Inr result"
  shows "attemptLoop lower net d maxRetries attempt tr = (Some result, tr @ [HttpGet requestConfig])"
  using assms by (subst attemptLoop.simps) simp

lemma attemptLoop_skip:
  assumes "a \<le> k" "k \<le> maxRetries + 1"
    and "\<forall>n. a \<le> n \<and> n < k \<longrightarrow> (\<exists>message. tryAttempt (net n) = Inl message)"
  shows "attemptLoop lower net d maxRetries a tr =
         attemptLoop lower net d maxRetries k
           (tr @ concat (map (\<lambda>n. [HttpGet requestConfig, Sleep (d * n)]) [a .. k - 1]))"
  using assms
proof (induction "nat (k - a)" arbitrary: a tr)
  case 0
  then have "a = k" by simp
  then show ?case by simp
next
  case (Suc x)
  then have lt: "a < k" by linarith
  then obtain message where m: "tryAttempt (net a) = Inl message"
    using Suc.prems(3) by auto
  have up: "[a .. k - 1] = a # [a + 1 .. k - 1]"
    using lt by (simp add: upto_rec1)
  have "attemptLoop lower net d maxRetries a tr =
         attemptLoop lower net d maxRetries (a + 1) (tr @ [HttpGet requestConfig, Sleep (d * a)])"
    using lt Suc.prems(2) m by (intro attemptLoop_fail_step) auto
  also have "\<dots> = attemptLoop lower net d maxRetries k
           ((tr @ [HttpGet requestConfig, Sleep (d * a)])
             @ concat (map (\<lambda>n. [HttpGet requestConfig, Sleep (d * n)]) [a + 1 .. k - 1]))"
    using Suc.hyps(2) Suc.prems lt by (intro Suc.hyps(1)) auto
  finally show ?case by (simp add: up)
qed

lemma attemptLoop_first_success:
  assumes "1 \<le> k" "k \<le> maxRetries + 1"
    and "\<forall>n. 1 \<le> n \<and> n < k \<longrightarrow> (\<exists>message. tryAttempt (net n) = Inl message)"
    and "tryAttempt (net k) = Inr result"
  shows "attemptLoop lower net d maxRetries 1 [] = (Some result, attemptsTrace d k)"
  using attemptLoop_skip[OF assms(1,2,3), of lower d "[]"]
    attemptLoop_success[of k maxRetries net result, OF assms(2,4)]
  by (simp add: attemptsTrace_def)

lemma attemptLoop_all_fail:
  assumes "0 \<le> maxRetries"
    and "\<forall>n. 1 \<le> n \<and> n \<le> maxRetries \<longrightarrow> (\<exists>message. tryAttempt (net n) = Inl message)"
    and "tryAttempt (net (maxRetries + 1)) = Inl message"
  shows "attemptLoop lower net d maxRetries 1 [] =
           (Some (CrawlFailure non_browser message (Some (shouldFallbackToBrowser lower message))),
            attemptsTrace d (maxRetries + 1))"
proof -
  have "attemptLoop lower net d maxRetries 1 [] =
         attemptLoop lower net d maxRetries (maxRetries + 1)
           ([] @ concat (map (\<lambda>n. [HttpGet requestConfig, Sleep (d * n)]) [1 .. maxRetries + 1 - 1]))"
    using assms(1,2) by (intro attemptLoop_skip) auto
  then show ?thesis
    using attemptLoop_fail_last[of "maxRetries + 1" maxRetries net message, OF refl assms(3)]
    by (simp add: attemptsTrace_def)
qed

lemma tryAttempt_nonHtml:
  assumes "\<not> includesStr (case header of None \<Rightarrow> [] | Some h \<Rightarrow> h) (js ''text/html'')"
  shows "tryAttempt (Response header status extraction) =
           Inl (js ''Non-HTML content type: '' @ (case header of None \<Rightarrow> [] | Some h \<Rightarrow> h))"
  using assms by (simp add: tryAttempt_def)

lemma attemptsTrace_3: "attemptsTrace d 3 =
  [HttpGet requestConfig, Sleep (d * 1), HttpGet requestConfig, Sleep (d * 2), HttpGet requestConfig]"
  by (simp add: attemptsTrace_def upto_rec1)

lemma shouldFallbackToBrowser_cases:
  "shouldFallbackToBrowser lower message \<longleftrightarrow>
     scriptSignature (lower message) \<or> \<not> networkSignature (lower message)"
  by (auto simp: shouldFallbackToBrowser_def scriptSignature_def networkSignature_def Let_def)

section \<open>The content-bearing test and the block filter\<close>

text \<open>
  C1.  Each of the three copies of the content-bearing test in the region detector (the scan
  of the first ten blocks, the opening or extending of a region, the look-ahead) holds of a
  block if and only if the block has a title that is not empty after trimming, or non-empty
  content of at least 15 white-space-separated words.  In particular a block without a
  title whose content has between 5 and 14 words fails all three.
\<close>

theorem C1_content_bearing_threshold:
  "first10Valid b = contentBearing_spec b
   \<and> isValidContentStart b = contentBearing_spec b
   \<and> nextIsValid b = contentBearing_spec b
   \<and> (title b = None \<and> content b = Some c \<and> 5 \<le> wordCount_spec c \<and> wordCount_spec c \<le> 14
        \<longrightarrow> \<not> first10Valid b \<and> \<not> isValidContentStart b \<and> \<not> nextIsValid b)"
  by (auto simp: first10Valid_eq nextIsValid_eq isValidContentStart_spec contentBearing_spec_def
      nonEmpty_spec_def)

theorem C1_content_bearing_threshold_witness:
  "title (contentBlock 14) = None \<and> content (contentBlock 14) = Some (nWords 14)
   \<and> 5 \<le> wordCount_spec (nWords 14) \<and> wordCount_spec (nWords 14) \<le> 14
   \<and> \<not> first10Valid (contentBlock 14) \<and> \<not> isValidContentStart (contentBlock 14)
   \<and> \<not> nextIsValid (contentBlock 14)
   \<and> isValidContentStart (contentBlock 15)"
proof -
  have h: "title (contentBlock 14) = None \<and> content (contentBlock 14) = Some (nWords 14)
           \<and> 5 \<le> wordCount_spec (nWords 14) \<and> wordCount_spec (nWords 14) \<le> 14"
    by (simp add: contentBlock_def emptyBlock_def wordCount_nWords)
  have k: "contentBearing_spec (contentBlock 15)"
    using wordCount_pos_nonEmpty[of "nWords 15"]
    by (simp add: contentBearing_spec_def contentBlock_def emptyBlock_def nonEmpty_spec_def
        wordCount_nWords)
  show ?thesis
    using h k C1_content_bearing_threshold[of "contentBlock 14" "nWords 14"]
      C1_content_bearing_threshold[of "contentBlock 15" "nWords 15"]
    by blast
qed

text \<open>
  C5.  The block filter keeps a block if and only if it has a title that is not empty after
  trimming, or an image that is not empty after trimming, or content of at least 20
  white-space-separated words.  A block whose content has exactly 20 words is kept; with 19
  words and neither title nor image it is dropped; a block with neither title, content nor
  image (a link alone) is dropped.
\<close>

theorem C5_block_filter:
  "shouldIncludeBlock b = kept_spec b
   \<and> (content b = Some c \<and> wordCount_spec c = 20 \<longrightarrow> shouldIncludeBlock b)
   \<and> (\<not> nonEmpty_spec (title b) \<and> \<not> nonEmpty_spec (image_src b)
        \<and> content b = Some c \<and> wordCount_spec c = 19 \<longrightarrow> \<not> shouldIncludeBlock b)
   \<and> (\<not> nonEmpty_spec (title b) \<and> \<not> nonEmpty_spec (image_src b) \<and> content b = None
        \<longrightarrow> \<not> shouldIncludeBlock b)"
  by (auto simp: shouldIncludeBlock_spec kept_spec_def)

theorem C5_block_filter_witness:
  "shouldIncludeBlock (contentBlock 20)
   \<and> \<not> shouldIncludeBlock (contentBlock 19)
   \<and> \<not> shouldIncludeBlock (emptyBlock\<lparr>link := Some (js ''/x'')\<rparr>)
   \<and> shouldIncludeBlock titleBlock"
proof -
  have a: "content (contentBlock 20) = Some (nWords 20) \<and> wordCount_spec (nWords 20) = 20"
    by (simp add: contentBlock_def emptyBlock_def wordCount_nWords)
  have b: "\<not> nonEmpty_spec (title (contentBlock 19)) \<and> \<not> nonEmpty_spec (image_src (contentBlock 19))
           \<and> content (contentBlock 19) = Some (nWords 19) \<and> wordCount_spec (nWords 19) = 19"
    by (simp add: contentBlock_def emptyBlock_def wordCount_nWords nonEmpty_spec_def)
  have c: "\<not> nonEmpty_spec (title (emptyBlock\<lparr>link := Some (js ''/x'')\<rparr>))
           \<and> \<not> nonEmpty_spec (image_src (emptyBlock\<lparr>link := Some (js ''/x'')\<rparr>))
           \<and> content (emptyBlock\<lparr>link := Some (js ''/x'')\<rparr>) = None"
    by (simp add: emptyBlock_def nonEmpty_spec_def)
  have d: "kept_spec titleBlock"
    by (simp add: kept_spec_def titleBlock_def emptyBlock_def nonEmpty_spec_def js_def trim_def
        isWhiteSpace_def)
  show ?thesis
    using a b c d C5_block_filter[of "contentBlock 20" "nWords 20"]
      C5_block_filter[of "contentBlock 19" "nWords 19"]
      C5_block_filter[of "emptyBlock\<lparr>link := Some (js ''/x'')\<rparr>" "[]"]
      C5_block_filter[of titleBlock "[]"]
    by blast
qed

section \<open>The regions of the detector\<close>

subsection \<open>The example pages\<close>

lemma lateTitlePage_nth:
  "j < 43 \<Longrightarrow> lateTitlePage ! j = (if j = 12 then titleBlock else shortBlock)"
  by (auto simp: lateTitlePage_def nth_append nth_Cons')

lemma twoRegionPage_nth:
  "j < 30 \<Longrightarrow> twoRegionPage ! j = (if j = 5 \<or> j = 26 then titleBlock else shortBlock)"
  by (auto simp: twoRegionPage_def nth_append nth_Cons')

lemma twoRegionPage_prefix:
  "scanPrefix twoRegionPage True 26 =
     Inr \<lparr>regions = [\<lparr>r_start = 5, r_end = 14, reason = title_start, isFirstRegion = True,
                       extendRange = 10, lastValidContentIndex = 5\<rparr>],
          currentRegion = None, isFirstContentRegion = False\<rparr>"
  by code_simp

lemma twoRegionPage_regions:
  "detectContentRegions twoRegionPage =
     Inr [\<lparr>r_start = 5, r_end = 14, reason = title_start, isFirstRegion = True,
           extendRange = 10, lastValidContentIndex = 5\<rparr>,
          \<lparr>r_start = 26, r_end = 29, reason = title_start, isFirstRegion = False,
           extendRange = 10, lastValidContentIndex = 26\<rparr>]"
  by code_simp

subsection \<open>The window of an opening region\<close>

text \<open>
  C2.  Let the scan arrive at a content-bearing block at index \<open>k\<close>, in the state \<open>st\<close>
  from which the main loop continues.  The flag of the first pass tells whether one of the
  first \<open>min(10, len)\<close> blocks is content-bearing, and the flag \<open>isFirstContentRegion\<close> tells
  that no block before \<open>k\<close> is content-bearing, in which case no region is open.  When no
  region is open, the block opens the region \<open>[k, min(k + w - 1, len - 1)]\<close> with window
  \<open>w = 20\<close> if this is the first region and none of the first ten blocks is
  content-bearing, and \<open>w = 10\<close> otherwise; and the list that \<open>detectContentRegions\<close>
  returns has a region with this start, this window and an end not before this end.  In
  the returned list every region starts at a content-bearing block, the first region (and
  only it) is marked first and starts at the first content-bearing block, its window is 20
  when none of the first ten blocks is content-bearing and 10 otherwise, every other
  region has window 10, and every region ends at or after \<open>min(start + w - 1, len - 1)\<close>.
\<close>

theorem C2_opening_window:
  assumes "k < length blocks" and "contentBearing_spec (blocks ! k)"
  shows "\<exists>found st rs.
     first10Loop blocks 0 = Inr found
     \<and> scanPrefix blocks found k = Inr st
     \<and> scanLoop blocks found 0 initialScan = scanLoop blocks found (int k) st
     \<and> detectContentRegions blocks = Inr rs
     \<and> (found \<longleftrightarrow> (\<exists>j < min 10 (length blocks). contentBearing_spec (blocks ! j)))
     \<and> (isFirstContentRegion st \<longleftrightarrow> (\<forall>j<k. \<not> contentBearing_spec (blocks ! j)))
     \<and> (isFirstContentRegion st \<longrightarrow> currentRegion st = None)
     \<and> (currentRegion st = None \<longrightarrow>
          currentRegion (startOrExtend blocks found (int k) (blocks ! k) st) =
            Some \<lparr>r_start = int k,
                  r_end = min (int k + (if isFirstContentRegion st \<and> \<not> found then 20 else 10) - 1)
                              (int (length blocks) - 1),
                  reason = (if nonEmpty_spec (title (blocks ! k)) then title_start else content_start),
                  isFirstRegion = isFirstContentRegion st,
                  extendRange = (if isFirstContentRegion st \<and> \<not> found then 20 else 10),
                  lastValidContentIndex = int k\<rparr>
          \<and> (\<exists>r \<in> set rs.
                r_start r = int k
                \<and> isFirstRegion r = isFirstContentRegion st
                \<and> extendRange r = (if isFirstContentRegion st \<and> \<not> found then 20 else 10)
                \<and> reason r = (if nonEmpty_spec (title (blocks ! k)) then title_start else content_start)
                \<and> min (int k + (if isFirstContentRegion st \<and> \<not> found then 20 else 10) - 1)
                       (int (length blocks) - 1) \<le> r_end r))
     \<and> rs \<noteq> []
     \<and> (\<forall>n < length rs.
           0 \<le> r_start (rs ! n) \<and> r_start (rs ! n) < int (length blocks)
           \<and> contentBearing_spec (blocks ! nat (r_start (rs ! n)))
           \<and> (isFirstRegion (rs ! n) \<longleftrightarrow> n = 0)
           \<and> extendRange (rs ! n) = (if n = 0 \<and> \<not> found then 20 else 10)
           \<and> min (r_start (rs ! n) + extendRange (rs ! n) - 1) (int (length blocks) - 1)
                \<le> r_end (rs ! n))
     \<and> (\<forall>j < nat (r_start (hd rs)). \<not> contentBearing_spec (blocks ! j))"
proof -
  let ?found = "\<exists>j < min 10 (length blocks). contentBearing_spec (blocks ! j)"
  let ?n = "length blocks"
  have f10: "first10Loop blocks 0 = Inr ?found" by (rule first10Loop_spec)
  obtain st where st: "scanPrefix blocks ?found k = Inr st"
    using scanPrefix_inv[of k blocks ?found] assms(1) by auto
  obtain stF where stF: "scanPrefix blocks ?found ?n = Inr stF"
    using scanPrefix_inv[of ?n blocks ?found] by auto
  define rs where "rs = allRegions stF"
  have det: "detectContentRegions blocks = Inr rs"
    unfolding rs_def by (rule detectContentRegions_prefix[OF f10 stF])
  have run: "scanLoop blocks ?found 0 initialScan = scanLoop blocks ?found (int k) st"
    using scanLoop_prefix[of k blocks ?found] st assms(1) by simp
  have f: "(isFirstContentRegion st \<longleftrightarrow> (\<forall>j<k. \<not> contentBearing_spec (blocks ! j)))"
    "isFirstContentRegion st \<longrightarrow> currentRegion st = None"
    using scanPrefix_first[OF _ st] assms(1) by (auto simp: isValidContentStart_spec)
  have win: "win_inv blocks ?found stF"
    using scanPrefix_win[OF _ stF] by simp
  have ok: "\<And>r. r \<in> set rs \<Longrightarrow> opened_ok blocks ?found r"
    using win by (simp add: win_inv_def rs_def)
  have "\<not> isFirstContentRegion stF"
    using scanPrefix_first[OF _ stF] assms by (auto simp: isValidContentStart_spec)
  then have ne: "rs \<noteq> []"
    using win by (simp add: win_inv_def rs_def)
  have idx: "\<And>n. n < length rs \<Longrightarrow> isFirstRegion (rs ! n) \<longleftrightarrow> n = 0"
    using win by (simp add: win_inv_def rs_def)
  have all: "\<forall>n < length rs.
           0 \<le> r_start (rs ! n) \<and> r_start (rs ! n) < int (length blocks)
           \<and> contentBearing_spec (blocks ! nat (r_start (rs ! n)))
           \<and> (isFirstRegion (rs ! n) \<longleftrightarrow> n = 0)
           \<and> extendRange (rs ! n) = (if n = 0 \<and> \<not> ?found then 20 else 10)
           \<and> min (r_start (rs ! n) + extendRange (rs ! n) - 1) (int (length blocks) - 1)
                \<le> r_end (rs ! n)"
  proof (intro allI impI)
    fix n assume n: "n < length rs"
    then have o: "opened_ok blocks ?found (rs ! n)" using ok by simp
    have e: "extendRange (rs ! n) = (if isFirstRegion (rs ! n) \<and> \<not> ?found then 20 else 10)"
      using o unfolding opened_ok_def by blast
    have e': "extendRange (rs ! n) = (if n = 0 \<and> \<not> ?found then 20 else 10)"
      unfolding e using idx[OF n] by simp
    have rest: "0 \<le> r_start (rs ! n)" "r_start (rs ! n) < int (length blocks)"
      "contentBearing_spec (blocks ! nat (r_start (rs ! n)))"
      "min (r_start (rs ! n) + extendRange (rs ! n) - 1) (int (length blocks) - 1) \<le> r_end (rs ! n)"
      using o unfolding opened_ok_def isValidContentStart_spec by blast+
    show "0 \<le> r_start (rs ! n) \<and> r_start (rs ! n) < int (length blocks)
           \<and> contentBearing_spec (blocks ! nat (r_start (rs ! n)))
           \<and> (isFirstRegion (rs ! n) \<longleftrightarrow> n = 0)
           \<and> extendRange (rs ! n) = (if n = 0 \<and> \<not> ?found then 20 else 10)
           \<and> min (r_start (rs ! n) + extendRange (rs ! n) - 1) (int (length blocks) - 1)
                \<le> r_end (rs ! n)"
      using rest e' idx[OF n] by (intro conjI) assumption+
  qed
  have hd0: "hd rs = rs ! 0" using ne by (simp add: hd_conv_nth)
  have "isFirstRegion (rs ! 0)" using idx[of 0] ne by simp
  moreover have "opened_ok blocks ?found (rs ! 0)" using ok ne by simp
  ultimately have first: "\<forall>j < nat (r_start (hd rs)). \<not> contentBearing_spec (blocks ! j)"
    unfolding hd0 opened_ok_def isValidContentStart_spec by blast
  have opn: "currentRegion st = None \<longrightarrow>
          currentRegion (startOrExtend blocks ?found (int k) (blocks ! k) st) =
            Some \<lparr>r_start = int k,
                  r_end = min (int k + (if isFirstContentRegion st \<and> \<not> ?found then 20 else 10) - 1)
                              (int (length blocks) - 1),
                  reason = (if nonEmpty_spec (title (blocks ! k)) then title_start else content_start),
                  isFirstRegion = isFirstContentRegion st,
                  extendRange = (if isFirstContentRegion st \<and> \<not> ?found then 20 else 10),
                  lastValidContentIndex = int k\<rparr>
          \<and> (\<exists>r \<in> set rs.
                r_start r = int k
                \<and> isFirstRegion r = isFirstContentRegion st
                \<and> extendRange r = (if isFirstContentRegion st \<and> \<not> ?found then 20 else 10)
                \<and> reason r = (if nonEmpty_spec (title (blocks ! k)) then title_start else content_start)
                \<and> min (int k + (if isFirstContentRegion st \<and> \<not> ?found then 20 else 10) - 1)
                       (int (length blocks) - 1) \<le> r_end r)"
  proof
    assume none: "currentRegion st = None"
    have a: "currentRegion (startOrExtend blocks ?found (int k) (blocks ! k) st) =
            Some \<lparr>r_start = int k,
                  r_end = min (int k + (if isFirstContentRegion st \<and> \<not> ?found then 20 else 10) - 1)
                              (int (length blocks) - 1),
                  reason = (if nonEmpty_spec (title (blocks ! k)) then title_start else content_start),
                  isFirstRegion = isFirstContentRegion st,
                  extendRange = (if isFirstContentRegion st \<and> \<not> ?found then 20 else 10),
                  lastValidContentIndex = int k\<rparr>"
      using assms(2) none
      by (simp add: startOrExtend_def isValidContentStart_spec truthyTrim_spec Let_def)
    obtain st1 where st1: "scanPrefix blocks ?found (Suc k) = Inr st1"
      using scanPrefix_inv[of "Suc k" blocks ?found] assms(1) by auto
    then have b: "loopBody blocks ?found (int k) st = Inr st1" using st by simp
    have v: "isValidContentStart (blocks ! nat (int k))"
      using assms(2) by (simp add: isValidContentStart_spec)
    have "int k \<in> r_start ` set (allRegions st1)"
      using assms(1) by (intro loopBody_starts(2)[OF _ _ b none v]) auto
    moreover have "r_start ` set (allRegions st1) \<subseteq> r_start ` set (allRegions stF)"
    proof -
      have eq: "Suc k + (?n - Suc k) = ?n" using assms(1) by simp
      have "scanPrefix blocks ?found (Suc k + (?n - Suc k)) = Inr stF"
        unfolding eq by (rule stF)
      then show ?thesis
        using scanPrefix_starts[OF st1, of "?n - Suc k" stF] eq by simp
    qed
    ultimately obtain r where r: "r \<in> set rs" "r_start r = int k"
      unfolding rs_def by auto
    have o: "opened_ok blocks ?found r" using ok r(1) by simp
    have fr: "isFirstRegion r = isFirstContentRegion st"
      using o r(2) f(1) unfolding opened_ok_def isValidContentStart_spec by simp
    have er: "extendRange r = (if isFirstContentRegion st \<and> \<not> ?found then 20 else 10)"
      using o fr unfolding opened_ok_def by simp
    have rr: "reason r = (if nonEmpty_spec (title (blocks ! k)) then title_start else content_start)"
      using o r(2) unfolding opened_ok_def truthyTrim_spec by simp
    have "min (r_start r + extendRange r - 1) (int (length blocks) - 1) \<le> r_end r"
      using o unfolding opened_ok_def by blast
    then have en: "min (int k + (if isFirstContentRegion st \<and> \<not> ?found then 20 else 10) - 1)
                       (int (length blocks) - 1) \<le> r_end r"
      unfolding r(2) er .
    have "\<exists>r \<in> set rs.
                r_start r = int k
                \<and> isFirstRegion r = isFirstContentRegion st
                \<and> extendRange r = (if isFirstContentRegion st \<and> \<not> ?found then 20 else 10)
                \<and> reason r = (if nonEmpty_spec (title (blocks ! k)) then title_start else content_start)
                \<and> min (int k + (if isFirstContentRegion st \<and> \<not> ?found then 20 else 10) - 1)
                       (int (length blocks) - 1) \<le> r_end r"
      using r fr er rr en by (intro bexI[of _ r] conjI) assumption+
    then show "currentRegion (startOrExtend blocks ?found (int k) (blocks ! k) st) =
            Some \<lparr>r_start = int k,
                  r_end = min (int k + (if isFirstContentRegion st \<and> \<not> ?found then 20 else 10) - 1)
                              (int (length blocks) - 1),
                  reason = (if nonEmpty_spec (title (blocks ! k)) then title_start else content_start),
                  isFirstRegion = isFirstContentRegion st,
                  extendRange = (if isFirstContentRegion st \<and> \<not> ?found then 20 else 10),
                  lastValidContentIndex = int k\<rparr>
          \<and> (\<exists>r \<in> set rs.
                r_start r = int k
                \<and> isFirstRegion r = isFirstContentRegion st
                \<and> extendRange r = (if isFirstContentRegion st \<and> \<not> ?found then 20 else 10)
                \<and> reason r = (if nonEmpty_spec (title (blocks ! k)) then title_start else content_start)
                \<and> min (int k + (if isFirstContentRegion st \<and> \<not> ?found then 20 else 10) - 1)
                       (int (length blocks) - 1) \<le> r_end r)"
      using a by (intro conjI) assumption+
  qed
  show ?thesis
    using f10 st run det f opn ne all first
    by (intro exI[of _ ?found] exI[of _ st] exI[of _ rs] conjI) (assumption | rule refl)+
qed


theorem C2_opening_window_witness:
  "(\<exists>found st rs. first10Loop lateTitlePage 0 = Inr found
      \<and> scanPrefix lateTitlePage found 12 = Inr st
      \<and> currentRegion (startOrExtend lateTitlePage found 12 (lateTitlePage ! 12) st) =
          Some \<lparr>r_start = 12, r_end = 31, reason = title_start, isFirstRegion = True,
                extendRange = 20, lastValidContentIndex = 12\<rparr>
      \<and> detectContentRegions lateTitlePage = Inr rs
      \<and> (\<exists>r \<in> set rs. r_start r = 12 \<and> isFirstRegion r \<and> extendRange r = 20 \<and> 31 \<le> r_end r))
   \<and> (\<exists>found st rs. first10Loop twoRegionPage 0 = Inr found
      \<and> scanPrefix twoRegionPage found 26 = Inr st
      \<and> currentRegion (startOrExtend twoRegionPage found 26 (twoRegionPage ! 26) st) =
          Some \<lparr>r_start = 26, r_end = 29, reason = title_start, isFirstRegion = False,
                extendRange = 10, lastValidContentIndex = 26\<rparr>
      \<and> detectContentRegions twoRegionPage = Inr rs
      \<and> (\<exists>r \<in> set rs. r_start r = 26 \<and> \<not> isFirstRegion r \<and> extendRange r = 10 \<and> 29 \<le> r_end r))"
proof
  have len: "length lateTitlePage = 43" by (simp add: lateTitlePage_def)
  have b: "\<And>j. j < 43 \<Longrightarrow> contentBearing_spec (lateTitlePage ! j) \<longleftrightarrow> j = 12"
    by (simp add: lateTitlePage_nth shortBlock_not_bearing titleBlock_bearing)
  have t: "nonEmpty_spec (title (lateTitlePage ! 12))"
    by (simp add: lateTitlePage_nth titleBlock_def emptyBlock_def nonEmpty_spec_def js_def
        trim_def isWhiteSpace_def)
  have lt: "12 < length lateTitlePage" using len by simp
  have bear: "contentBearing_spec (lateTitlePage ! 12)" using b[of 12] by simp
  obtain found st rs where f: "first10Loop lateTitlePage 0 = Inr found"
    and st: "scanPrefix lateTitlePage found 12 = Inr st"
    and det: "detectContentRegions lateTitlePage = Inr rs"
    and fd: "found \<longleftrightarrow> (\<exists>j < min 10 (length lateTitlePage). contentBearing_spec (lateTitlePage ! j))"
    and fst: "isFirstContentRegion st \<longleftrightarrow> (\<forall>j<12. \<not> contentBearing_spec (lateTitlePage ! j))"
    and cur: "isFirstContentRegion st \<longrightarrow> currentRegion st = None"
    and opn: "currentRegion st = None \<longrightarrow>
          currentRegion (startOrExtend lateTitlePage found (int 12) (lateTitlePage ! 12) st) =
            Some \<lparr>r_start = int 12,
                  r_end = min (int 12 + (if isFirstContentRegion st \<and> \<not> found then 20 else 10) - 1)
                              (int (length lateTitlePage) - 1),
                  reason = (if nonEmpty_spec (title (lateTitlePage ! 12)) then title_start else content_start),
                  isFirstRegion = isFirstContentRegion st,
                  extendRange = (if isFirstContentRegion st \<and> \<not> found then 20 else 10),
                  lastValidContentIndex = int 12\<rparr>
          \<and> (\<exists>r \<in> set rs.
                r_start r = int 12
                \<and> isFirstRegion r = isFirstContentRegion st
                \<and> extendRange r = (if isFirstContentRegion st \<and> \<not> found then 20 else 10)
                \<and> reason r = (if nonEmpty_spec (title (lateTitlePage ! 12)) then title_start else content_start)
                \<and> min (int 12 + (if isFirstContentRegion st \<and> \<not> found then 20 else 10) - 1)
                       (int (length lateTitlePage) - 1) \<le> r_end r)"
    using C2_opening_window[OF lt bear]
    apply (elim exE conjE)
    apply (rule that)
          apply assumption+
    done
  have nf: "\<not> found" using fd len b by auto
  have first: "isFirstContentRegion st" using fst b by auto
  then have none: "currentRegion st = None" using cur by simp
  have w: "(if isFirstContentRegion st \<and> \<not> found then 20 else 10) = (20::int)"
    using nf first by simp
  have o1: "currentRegion (startOrExtend lateTitlePage found 12 (lateTitlePage ! 12) st) =
          Some \<lparr>r_start = 12, r_end = 31, reason = title_start, isFirstRegion = True,
                extendRange = 20, lastValidContentIndex = 12\<rparr>"
    using opn none nf first t len by simp
  obtain r where r: "r \<in> set rs" "r_start r = int 12" "isFirstRegion r = isFirstContentRegion st"
    "extendRange r = (if isFirstContentRegion st \<and> \<not> found then 20 else 10)"
    "min (int 12 + (if isFirstContentRegion st \<and> \<not> found then 20 else 10) - 1)
                       (int (length lateTitlePage) - 1) \<le> r_end r"
    using opn none by blast
  have o2: "\<exists>r \<in> set rs. r_start r = 12 \<and> isFirstRegion r \<and> extendRange r = 20 \<and> 31 \<le> r_end r"
    using r first len unfolding w by (intro bexI[of _ r]) simp_all
  show "\<exists>found st rs. first10Loop lateTitlePage 0 = Inr found
      \<and> scanPrefix lateTitlePage found 12 = Inr st
      \<and> currentRegion (startOrExtend lateTitlePage found 12 (lateTitlePage ! 12) st) =
          Some \<lparr>r_start = 12, r_end = 31, reason = title_start, isFirstRegion = True,
                extendRange = 20, lastValidContentIndex = 12\<rparr>
      \<and> detectContentRegions lateTitlePage = Inr rs
      \<and> (\<exists>r \<in> set rs. r_start r = 12 \<and> isFirstRegion r \<and> extendRange r = 20 \<and> 31 \<le> r_end r)"
    using f st o1 det o2 by (intro exI[of _ found] exI[of _ st] exI[of _ rs] conjI) assumption+
next
  have len: "length twoRegionPage = 30" by (simp add: twoRegionPage_def)
  have b: "\<And>j. j < 30 \<Longrightarrow> contentBearing_spec (twoRegionPage ! j) \<longleftrightarrow> j = 5 \<or> j = 26"
    by (simp add: twoRegionPage_nth shortBlock_not_bearing titleBlock_bearing)
  have t: "nonEmpty_spec (title (twoRegionPage ! 26))"
    by (simp add: twoRegionPage_nth titleBlock_def emptyBlock_def nonEmpty_spec_def js_def
        trim_def isWhiteSpace_def)
  have lt: "26 < length twoRegionPage" using len by simp
  have bear: "contentBearing_spec (twoRegionPage ! 26)" using b[of 26] by simp
  obtain found st rs where f: "first10Loop twoRegionPage 0 = Inr found"
    and st: "scanPrefix twoRegionPage found 26 = Inr st"
    and det: "detectContentRegions twoRegionPage = Inr rs"
    and fd: "found \<longleftrightarrow> (\<exists>j < min 10 (length twoRegionPage). contentBearing_spec (twoRegionPage ! j))"
    and fst: "isFirstContentRegion st \<longleftrightarrow> (\<forall>j<26. \<not> contentBearing_spec (twoRegionPage ! j))"
    and opn: "currentRegion st = None \<longrightarrow>
          currentRegion (startOrExtend twoRegionPage found (int 26) (twoRegionPage ! 26) st) =
            Some \<lparr>r_start = int 26,
                  r_end = min (int 26 + (if isFirstContentRegion st \<and> \<not> found then 20 else 10) - 1)
                              (int (length twoRegionPage) - 1),
                  reason = (if nonEmpty_spec (title (twoRegionPage ! 26)) then title_start else content_start),
                  isFirstRegion = isFirstContentRegion st,
                  extendRange = (if isFirstContentRegion st \<and> \<not> found then 20 else 10),
                  lastValidContentIndex = int 26\<rparr>
          \<and> (\<exists>r \<in> set rs.
                r_start r = int 26
                \<and> isFirstRegion r = isFirstContentRegion st
                \<and> extendRange r = (if isFirstContentRegion st \<and> \<not> found then 20 else 10)
                \<and> reason r = (if nonEmpty_spec (title (twoRegionPage ! 26)) then title_start else content_start)
                \<and> min (int 26 + (if isFirstContentRegion st \<and> \<not> found then 20 else 10) - 1)
                       (int (length twoRegionPage) - 1) \<le> r_end r)"
    using C2_opening_window[OF lt bear]
    apply (elim exE conjE)
    apply (rule that)
         apply assumption+
    done
  have "contentBearing_spec (twoRegionPage ! 5)" using b[of 5] by simp
  then have fnd: "found" using fd len by auto
  have nfirst: "\<not> isFirstContentRegion st"
    using fst b[of 5] by auto
  have none: "currentRegion st = None"
    using st fnd twoRegionPage_prefix by auto
  have w: "(if isFirstContentRegion st \<and> \<not> found then 20 else 10) = (10::int)"
    using fnd by simp
  have o1: "currentRegion (startOrExtend twoRegionPage found 26 (twoRegionPage ! 26) st) =
          Some \<lparr>r_start = 26, r_end = 29, reason = title_start, isFirstRegion = False,
                extendRange = 10, lastValidContentIndex = 26\<rparr>"
    using opn none fnd nfirst t len by simp
  obtain r where r: "r \<in> set rs" "r_start r = int 26" "isFirstRegion r = isFirstContentRegion st"
    "extendRange r = (if isFirstContentRegion st \<and> \<not> found then 20 else 10)"
    "min (int 26 + (if isFirstContentRegion st \<and> \<not> found then 20 else 10) - 1)
                       (int (length twoRegionPage) - 1) \<le> r_end r"
    using opn none by blast
  have o2: "\<exists>r \<in> set rs. r_start r = 26 \<and> \<not> isFirstRegion r \<and> extendRange r = 10 \<and> 29 \<le> r_end r"
    using r nfirst len unfolding w by (intro bexI[of _ r]) simp_all
  show "\<exists>found st rs. first10Loop twoRegionPage 0 = Inr found
      \<and> scanPrefix twoRegionPage found 26 = Inr st
      \<and> currentRegion (startOrExtend twoRegionPage found 26 (twoRegionPage ! 26) st) =
          Some \<lparr>r_start = 26, r_end = 29, reason = title_start, isFirstRegion = False,
                extendRange = 10, lastValidContentIndex = 26\<rparr>
      \<and> detectContentRegions twoRegionPage = Inr rs
      \<and> (\<exists>r \<in> set rs. r_start r = 26 \<and> \<not> isFirstRegion r \<and> extendRange r = 10 \<and> 29 \<le> r_end r)"
    using f st o1 det o2 by (intro exI[of _ found] exI[of _ st] exI[of _ rs] conjI) assumption+
qed

subsection \<open>Regions are well-formed, ordered and disjoint\<close>

text \<open>
  C9.  The detector returns a list of regions for every block sequence (it never reads
  outside the array).  Every region satisfies \<open>start \<le> end \<le> len - 1\<close>, and every region
  starts strictly after the end of every region before it in the list.
\<close>

theorem C9_regions_ordered:
  "\<exists>rs. detectContentRegions blocks = Inr rs
     \<and> (\<forall>r \<in> set rs. r_start r \<le> r_end r \<and> r_end r \<le> int (length blocks) - 1)
     \<and> (\<forall>m n. m < n \<and> n < length rs \<longrightarrow> r_end (rs ! m) < r_start (rs ! n))"
proof -
  obtain found where f: "first10Loop blocks 0 = Inr found"
    using first10Loop_result[of 0 blocks] by simp
  obtain st where st: "scanLoop blocks found 0 initialScan = Inr st"
    and inv: "scan_inv blocks (int (length blocks)) st"
    using scanLoop_inv[OF _ _ initialScan_inv, of blocks found] by auto
  let ?rs = "case currentRegion st of None \<Rightarrow> regions st | Some cur \<Rightarrow> regions st @ [cur]"
  have d: "detectContentRegions blocks = Inr ?rs"
    using f st by (simp add: detectContentRegions_def split: option.splits)
  have ok: "\<forall>r \<in> set ?rs. region_ok blocks r"
    using inv by (auto simp: scan_inv_def split: option.splits)
  have srt: "sorted_wrt (\<lambda>a b. r_end a < r_start b) ?rs"
    using inv by (auto simp: scan_inv_def sorted_wrt_append split: option.splits)
  have "\<forall>m n. m < n \<and> n < length ?rs \<longrightarrow> r_end (?rs ! m) < r_start (?rs ! n)"
    using srt by (simp add: sorted_wrt_iff_nth_less)
  then show ?thesis
    using d ok unfolding region_ok_def by blast
qed


theorem C9_regions_ordered_witness:
  "\<exists>rs. detectContentRegions twoRegionPage = Inr rs \<and> length rs = 2
     \<and> r_start (rs ! 0) \<le> r_end (rs ! 0) \<and> r_end (rs ! 0) \<le> int (length twoRegionPage) - 1
     \<and> r_end (rs ! 0) < r_start (rs ! 1)"
proof -
  obtain rs where rs: "detectContentRegions twoRegionPage = Inr rs"
    and ok: "\<forall>r \<in> set rs. r_start r \<le> r_end r \<and> r_end r \<le> int (length twoRegionPage) - 1"
    and ord: "\<forall>m n. m < n \<and> n < length rs \<longrightarrow> r_end (rs ! m) < r_start (rs ! n)"
    using C9_regions_ordered[of twoRegionPage] by blast
  have len: "length rs = 2"
    using rs twoRegionPage_regions by auto
  then have "rs ! 0 \<in> set rs" by (simp add: nth_mem)
  then have "r_start (rs ! 0) \<le> r_end (rs ! 0) \<and> r_end (rs ! 0) \<le> int (length twoRegionPage) - 1"
    using ok by blast
  moreover have "r_end (rs ! 0) < r_start (rs ! 1)"
    using ord len by simp
  ultimately show ?thesis using rs len by blast
qed

subsection \<open>Two qualifying blocks nine apart give one region\<close>

lemma mergedPage_nth:
  "j < 18 \<Longrightarrow> mergedPage ! j = (if j = 5 \<or> j = 14 then titleBlock else shortBlock)"
  by (auto simp: mergedPage_def nth_append nth_Cons')

text \<open>
  C3.  When the content-bearing blocks of a sequence are exactly those at indices 5 and 14,
  the detector returns exactly one region.  It starts at 5, was opened with window 10, has
  14 as its last valid index and ends at \<open>min(23, len - 1)\<close>, so it contains both indices:
  the block at index 14 extends the region opened at index 5.
\<close>

theorem C3_merged_region:
  assumes len: "15 \<le> length blocks"
    and bearing: "\<forall>j < length blocks. contentBearing_spec (blocks ! j) \<longleftrightarrow> (j = 5 \<or> j = 14)"
  shows "detectContentRegions blocks =
           Inr [\<lparr>r_start = 5, r_end = min 23 (int (length blocks) - 1),
                 reason = (if nonEmpty_spec (title (blocks ! 5)) then title_start else content_start),
                 isFirstRegion = True, extendRange = 10, lastValidContentIndex = 14\<rparr>]"
proof -
  let ?n = "int (length blocks)"
  define e where "e = min 23 (?n - 1)"
  have e_fold: "min 23 (?n - 1) = e" by (simp add: e_def)
  let ?reason = "if nonEmpty_spec (title (blocks ! 5)) then title_start else content_start"
  have v: "\<And>j. 0 \<le> j \<Longrightarrow> j < ?n \<Longrightarrow> isValidContentStart (blocks ! nat j) \<longleftrightarrow> (j = 5 \<or> j = 14)"
  proof -
    fix j :: int assume "0 \<le> j" "j < ?n"
    then have "nat j < length blocks" by simp
    then have "contentBearing_spec (blocks ! nat j) \<longleftrightarrow> (nat j = 5 \<or> nat j = 14)"
      using bearing by blast
    then show "isValidContentStart (blocks ! nat j) \<longleftrightarrow> (j = 5 \<or> j = 14)"
      using \<open>0 \<le> j\<close> by (simp add: isValidContentStart_spec) linarith
  qed
  have v5: "isValidContentStart (blocks ! 5)" using v[of 5] len by simp
  have v14: "isValidContentStart (blocks ! 14)" using v[of 14] len by simp
  have found: "first10Loop blocks 0 = Inr True"
  proof -
    have "\<exists>j < min 10 (length blocks). contentBearing_spec (blocks ! j)"
      using bearing len by (intro exI[of _ 5]) simp
    then show ?thesis using first10Loop_spec[of blocks] by simp
  qed
  define r5 where "r5 = \<lparr>r_start = 5, r_end = 14, reason = ?reason, isFirstRegion = True,
                          extendRange = 10, lastValidContentIndex = 5\<rparr>"
  define st5 where "st5 = \<lparr>regions = [], currentRegion = Some r5, isFirstContentRegion = False\<rparr>"
  define r14 where "r14 = r5\<lparr>r_end := e, lastValidContentIndex := 14\<rparr>"
  define st14 where "st14 = \<lparr>regions = [], currentRegion = Some r14, isFirstContentRegion = False\<rparr>"
  define stE where "stE = \<lparr>regions = [r14], currentRegion = None, isFirstContentRegion = False\<rparr>"
  \<comment> \<open>indices 0 to 4: nothing happens\<close>
  have s0: "scanLoop blocks True 0 initialScan = scanLoop blocks True 5 initialScan"
    using len v by (intro scanLoop_skip) (auto simp: initialScan_def)
  \<comment> \<open>index 5 opens the region [5, 14]\<close>
  have b5: "loopBody blocks True 5 initialScan = Inr st5"
    using len v5
    by (simp add: loopBody_def getBlock_in startOrExtend_def checkRegionEnd_def initialScan_def
        Let_def st5_def r5_def truthyTrim_spec)
  have s5: "scanLoop blocks True 5 initialScan = scanLoop blocks True 6 st5"
    using scanLoop_step[OF _ b5] len by simp
  \<comment> \<open>indices 6 to 13 lie before the end of the region\<close>
  have s6: "scanLoop blocks True 6 st5 = scanLoop blocks True 14 st5"
    using len v by (intro scanLoop_skip) (auto simp: st5_def r5_def)
  show ?thesis
  proof (cases "length blocks = 15")
    case True
    \<comment> \<open>index 14 is the last one: the region keeps its end and is closed\<close>
    have la: "lookAhead blocks 15 14 = Inr None"
      by (subst lookAhead.simps) simp
    have e: "e = 14" using True by (simp add: e_def)
    have b14: "loopBody blocks True 14 st5 = Inr stE"
      using True v14 la e
      by (simp add: loopBody_def getBlock_in startOrExtend_def checkRegionEnd_def
          Let_def st5_def r5_def stE_def r14_def)
    have "scanLoop blocks True 14 st5 = scanLoop blocks True 15 stE"
      using scanLoop_step[OF _ b14] True by simp
    also have "\<dots> = Inr stE"
      using scanLoop_end[of blocks True stE] True by simp
    finally have "scanLoop blocks True 0 initialScan = Inr stE"
      using s0 s5 s6 by simp
    then show ?thesis
      using found by (simp add: detectContentRegions_def stE_def r14_def r5_def e_def)
  next
    case False
    then have len16: "16 \<le> length blocks" using len by simp
    have e: "15 \<le> e" "e < ?n" "e \<le> 23" "\<not> e \<le> 14" "0 \<le> e" using len16 by (auto simp: e_def)
    \<comment> \<open>index 14 extends the open region\<close>
    have b14: "loopBody blocks True 14 st5 = Inr st14"
      using len16 v14 e
      by (simp add: loopBody_def getBlock_in startOrExtend_def checkRegionEnd_def
          Let_def st5_def r5_def st14_def r14_def e_fold)
    have s14: "scanLoop blocks True 14 st5 = scanLoop blocks True 15 st14"
      using scanLoop_step[OF _ b14] len16 by simp
    have s15: "scanLoop blocks True 15 st14 = scanLoop blocks True e st14"
      using e v by (intro scanLoop_skip) (auto simp: st14_def r14_def r5_def)
    \<comment> \<open>at the end of the region the look-ahead finds nothing\<close>
    have la: "lookAhead blocks (14 + 1) (min (14 + 10) (?n - 1)) = Inr None"
      using v by (intro lookAhead_none) auto
    have ve: "\<not> isValidContentStart (blocks ! nat e)"
      using v[of e] e by auto
    have bE: "loopBody blocks True e st14 = Inr stE"
      using e ve la
      by (simp add: loopBody_def getBlock_in startOrExtend_def checkRegionEnd_def
          Let_def st14_def r14_def r5_def stE_def)
    have sE: "scanLoop blocks True e st14 = scanLoop blocks True (e + 1) stE"
      using scanLoop_step[OF _ bE] e by simp
    have sF: "scanLoop blocks True (e + 1) stE = scanLoop blocks True ?n stE"
      using e v by (intro scanLoop_skip) (auto simp: stE_def)
    have "scanLoop blocks True 0 initialScan = Inr stE"
      using s0 s5 s6 s14 s15 sE sF scanLoop_end[of blocks True stE] by simp
    then show ?thesis
      using found by (simp add: detectContentRegions_def stE_def r14_def r5_def e_def)
  qed
qed


theorem C3_merged_region_witness:
  "15 \<le> length mergedPage
   \<and> contentBearing_spec (mergedPage ! 5) \<and> contentBearing_spec (mergedPage ! 14)
   \<and> detectContentRegions mergedPage =
        Inr [\<lparr>r_start = 5, r_end = 17, reason = title_start, isFirstRegion = True,
              extendRange = 10, lastValidContentIndex = 14\<rparr>]"
proof -
  have len: "length mergedPage = 18" by (simp add: mergedPage_def)
  have l15: "15 \<le> length mergedPage" using len by simp
  have b: "\<forall>j < length mergedPage. contentBearing_spec (mergedPage ! j) \<longleftrightarrow> (j = 5 \<or> j = 14)"
    using len by (simp add: mergedPage_nth shortBlock_not_bearing titleBlock_bearing)
  have t: "nonEmpty_spec (title (mergedPage ! 5))"
    by (simp add: mergedPage_nth titleBlock_def emptyBlock_def nonEmpty_spec_def js_def
        trim_def isWhiteSpace_def)
  have b5: "contentBearing_spec (mergedPage ! 5)" "contentBearing_spec (mergedPage ! 14)"
    using b len by simp_all
  show ?thesis
    using l15 b5 C3_merged_region[OF l15 b] t len by simp
qed

section \<open>The link-pattern pruner\<close>

subsection \<open>The example pages\<close>



















subsection \<open>Truncation at fifteen consecutive link pairs\<close>



section \<open>Extraction without regions\<close>

lemma seventyPage_counts:
  "contentCount_spec seventyPage = 10 \<and> linkedCount_spec seventyPage = 7"
  by code_simp

lemma eightyPage_counts:
  "contentCount_spec eightyPage = 10 \<and> linkedCount_spec eightyPage = 8"
  by code_simp

lemma seventyPage_kept: "filter kept_spec seventyPage = [imageBlock]"
  by code_simp

text \<open>
  C6, as the claim states it, fails: for a page of one short paragraph no region is
  detected, none of its blocks with text is linked, and the result is empty all the same,
  because the block filter keeps nothing.
\<close>

theorem C6_empty_without_suppression:
  "detectContentRegions [shortBlock] = Inr []
   \<and> checkLinkPatterns [shortBlock] [] = Inr []
   \<and> extractMainContentBlocks [shortBlock] [] = Inr []
   \<and> contentCount_spec [shortBlock] = 1
   \<and> linkedCount_spec [shortBlock] = 0
   \<and> \<not> linkOnly_spec [shortBlock]"
proof -
  have c: "contentCount_spec [shortBlock] = 1 \<and> linkedCount_spec [shortBlock] = 0"
    by code_simp
  then have n: "\<not> linkOnly_spec [shortBlock]"
    by (simp add: linkOnly_spec_def)
  have d: "detectContentRegions [shortBlock] = Inr []" by code_simp
  have p: "checkLinkPatterns [shortBlock] [] = Inr []" by (simp add: checkLinkPatterns_def)
  have k: "filter shouldIncludeBlock [shortBlock] = []" by code_simp
  have e: "extractMainContentBlocks [shortBlock] [] = Inr []"
    using n k by (simp add: extractMainContentBlocks_def checkOnlyLinkPatterns_spec noRegionFilter_def)
  show ?thesis using c n d p e by simp
qed

text \<open>
  C6, amended.  Without regions the extraction never fails.  It returns the empty list
  when there are blocks with a non-empty title or content and the fraction of them that
  have a link in the block itself or in one of the next three blocks exceeds 0.7 (that is,
  ten times the linked blocks exceed seven times the counted ones: at exactly 0.7 it does not).  Otherwise it returns the
  blocks of the whole sequence that the block filter keeps.  So the result is empty exactly
  when the page is link-pattern-only or the filter keeps no block.
\<close>

theorem C6_no_region_extraction:
  "extractMainContentBlocks blocks [] =
     Inr (if linkOnly_spec blocks then [] else noRegionFilter blocks)
   \<and> map fb_block (noRegionFilter blocks) = filter kept_spec blocks
   \<and> (linkOnly_spec blocks \<longleftrightarrow>
        0 < contentCount_spec blocks
        \<and> 7 * contentCount_spec blocks < 10 * linkedCount_spec blocks)
   \<and> (extractMainContentBlocks blocks [] = Inr [] \<longleftrightarrow>
        linkOnly_spec blocks \<or> filter kept_spec blocks = [])"
proof -
  have a: "extractMainContentBlocks blocks [] =
     Inr (if linkOnly_spec blocks then [] else noRegionFilter blocks)"
    by (simp add: extractMainContentBlocks_def checkOnlyLinkPatterns_spec)
  have "noRegionFilter blocks = [] \<longleftrightarrow> filter kept_spec blocks = []"
    using map_fb_block_noRegionFilter[of blocks] by (metis map_is_Nil_conv)
  then have d: "extractMainContentBlocks blocks [] = Inr [] \<longleftrightarrow>
        linkOnly_spec blocks \<or> filter kept_spec blocks = []"
    using a by simp
  show ?thesis
    using a d map_fb_block_noRegionFilter[of blocks] linkOnly_spec_int[of blocks] by simp
qed


theorem C6_no_region_extraction_witness:
  "contentCount_spec seventyPage = 10 \<and> linkedCount_spec seventyPage = 7
   \<and> extractMainContentBlocks seventyPage [] = Inr (noRegionFilter seventyPage)
   \<and> map fb_block (noRegionFilter seventyPage) = [imageBlock]
   \<and> contentCount_spec eightyPage = 10 \<and> linkedCount_spec eightyPage = 8
   \<and> extractMainContentBlocks eightyPage [] = Inr []"
proof -
  have a: "\<not> linkOnly_spec seventyPage"
    using C6_no_region_extraction[of seventyPage] seventyPage_counts by simp
  have b: "linkOnly_spec eightyPage"
    using C6_no_region_extraction[of eightyPage] eightyPage_counts by simp
  show ?thesis
    using a b C6_no_region_extraction[of seventyPage] C6_no_region_extraction[of eightyPage]
      seventyPage_counts eightyPage_counts seventyPage_kept
    by simp
qed

section \<open>The lightweight fetch\<close>

subsection \<open>Retries\<close>

text \<open>
  C7, as the claim states it, fails: a response that is not HTML is not a hard failure.
  The error it raises is caught like any other, the crawler waits and tries again; when
  the second response is HTML the crawl succeeds.
\<close>

theorem C7_nonHtml_is_retried:
  "tryAttempt (jsonThenHtml 1) = Inl (js ''Non-HTML content type: application/json'')
   \<and> nbCrawlUrl asciiLower jsonThenHtml None =
       (Some (CrawlSuccess non_browser (Some 200) ()),
        [HttpGet requestConfig, Sleep 1000, HttpGet requestConfig])"
  by code_simp

text \<open>
  C7, amended.  With \<open>maxRetries \<ge> 0\<close> retries (2 unless the options say otherwise) every
  failed attempt but the last is followed by a wait of \<open>retryDelay * attempt\<close> (1000 ms
  times the number of the attempt) and another attempt, whatever the failure: a request
  error or a response whose content type does not contain \<open>text/html\<close>, which raises the
  error ``Non-HTML content type''.  When all \<open>maxRetries + 1\<close> attempts fail the crawl
  returns the failure result with the message of the last error; when attempt \<open>k\<close> is the
  first to succeed it returns its result after \<open>k\<close> requests and \<open>k - 1\<close> waits.  Every
  request allows 5 redirects.
\<close>

theorem C7_retry_schedule:
  assumes "0 \<le> effectiveMaxRetries opt"
  shows "((\<forall>n. 1 \<le> n \<and> n \<le> effectiveMaxRetries opt + 1 \<longrightarrow> tryAttempt (net n) = Inl (msg n))
          \<longrightarrow> nbCrawlUrl lower net opt =
                (Some (CrawlFailure non_browser (msg (effectiveMaxRetries opt + 1))
                         (Some (shouldFallbackToBrowser lower (msg (effectiveMaxRetries opt + 1))))),
                 attemptsTrace 1000 (effectiveMaxRetries opt + 1)))
       \<and> (1 \<le> k \<and> k \<le> effectiveMaxRetries opt + 1
            \<and> (\<forall>n. 1 \<le> n \<and> n < k \<longrightarrow> tryAttempt (net n) = Inl (msg n))
            \<and> tryAttempt (net k) = Inr result
          \<longrightarrow> nbCrawlUrl lower net opt = (Some result, attemptsTrace 1000 k))
       \<and> (\<not> includesStr (case header of None \<Rightarrow> [] | Some h \<Rightarrow> h) (js ''text/html'')
          \<longrightarrow> tryAttempt (Response header status extraction) =
                Inl (js ''Non-HTML content type: '' @ (case header of None \<Rightarrow> [] | Some h \<Rightarrow> h)))
       \<and> effectiveMaxRetries None = 2
       \<and> attemptsTrace 1000 3 =
           [HttpGet \<lparr>timeout = 30000, maxRedirects = 5\<rparr>, Sleep 1000,
            HttpGet \<lparr>timeout = 30000, maxRedirects = 5\<rparr>, Sleep 2000,
            HttpGet \<lparr>timeout = 30000, maxRedirects = 5\<rparr>]"
proof (intro conjI impI)
  let ?m = "effectiveMaxRetries opt"
  assume a: "\<forall>n. 1 \<le> n \<and> n \<le> ?m + 1 \<longrightarrow> tryAttempt (net n) = Inl (msg n)"
  then have "\<forall>n. 1 \<le> n \<and> n \<le> ?m \<longrightarrow> (\<exists>message. tryAttempt (net n) = Inl message)"
    by auto
  moreover have "tryAttempt (net (?m + 1)) = Inl (msg (?m + 1))"
    using a assms by simp
  ultimately have "attemptLoop lower net nbRetryDelay ?m 1 [] =
                (Some (CrawlFailure non_browser (msg (?m + 1))
                         (Some (shouldFallbackToBrowser lower (msg (?m + 1))))),
                 attemptsTrace nbRetryDelay (?m + 1))"
    using attemptLoop_all_fail[OF assms] by blast
  then show "nbCrawlUrl lower net opt =
                (Some (CrawlFailure non_browser (msg (?m + 1))
                         (Some (shouldFallbackToBrowser lower (msg (?m + 1))))),
                 attemptsTrace 1000 (?m + 1))"
    by (simp add: nbCrawlUrl_def nbRetryDelay_def)
next
  let ?m = "effectiveMaxRetries opt"
  assume a: "1 \<le> k \<and> k \<le> ?m + 1
            \<and> (\<forall>n. 1 \<le> n \<and> n < k \<longrightarrow> tryAttempt (net n) = Inl (msg n))
            \<and> tryAttempt (net k) = Inr result"
  then have "\<forall>n. 1 \<le> n \<and> n < k \<longrightarrow> (\<exists>message. tryAttempt (net n) = Inl message)"
    by auto
  then have "attemptLoop lower net nbRetryDelay ?m 1 [] = (Some result, attemptsTrace nbRetryDelay k)"
    using a by (intro attemptLoop_first_success) auto
  then show "nbCrawlUrl lower net opt = (Some result, attemptsTrace 1000 k)"
    by (simp add: nbCrawlUrl_def nbRetryDelay_def)
next
  assume "\<not> includesStr (case header of None \<Rightarrow> [] | Some h \<Rightarrow> h) (js ''text/html'')"
  then show "tryAttempt (Response header status extraction) =
                Inl (js ''Non-HTML content type: '' @ (case header of None \<Rightarrow> [] | Some h \<Rightarrow> h))"
    by (rule tryAttempt_nonHtml)
next
  show "effectiveMaxRetries None = 2"
    by (simp add: effectiveMaxRetries_def nbMaxRetries_def)
next
  show "attemptsTrace 1000 3 =
           [HttpGet \<lparr>timeout = 30000, maxRedirects = 5\<rparr>, Sleep 1000,
            HttpGet \<lparr>timeout = 30000, maxRedirects = 5\<rparr>, Sleep 2000,
            HttpGet \<lparr>timeout = 30000, maxRedirects = 5\<rparr>]"
    using attemptsTrace_3[of 1000] by (simp add: requestConfig_def)
qed

theorem C7_retry_schedule_witness:
  "nbCrawlUrl asciiLower slowHost None =
     (Some (CrawlFailure non_browser (js ''timeout of 30000ms exceeded'')
              (Some (shouldFallbackToBrowser asciiLower (js ''timeout of 30000ms exceeded'')))),
      [HttpGet \<lparr>timeout = 30000, maxRedirects = 5\<rparr>, Sleep 1000,
       HttpGet \<lparr>timeout = 30000, maxRedirects = 5\<rparr>, Sleep 2000,
       HttpGet \<lparr>timeout = 30000, maxRedirects = 5\<rparr>])
   \<and> nbCrawlUrl asciiLower jsonThenHtml None =
       (Some (CrawlSuccess non_browser (Some 200) ()), attemptsTrace 1000 2)
   \<and> tryAttempt (Response (Some (js ''application/json'')) 200 (Inr ())) =
       Inl (js ''Non-HTML content type: '' @ js ''application/json'')"
proof -
  have m: "effectiveMaxRetries None = 2"
    by (simp add: effectiveMaxRetries_def nbMaxRetries_def)
  have m0: "0 \<le> effectiveMaxRetries None" using m by simp
  have slow: "\<forall>n. 1 \<le> n \<and> n \<le> effectiveMaxRetries None + 1 \<longrightarrow>
                tryAttempt (slowHost n) = Inl (js ''timeout of 30000ms exceeded'')"
    by (simp add: slowHost_def tryAttempt_def)
  have j1: "\<forall>n. 1 \<le> n \<and> n < 2 \<longrightarrow>
                tryAttempt (jsonThenHtml n) = Inl (js ''Non-HTML content type: application/json'')"
  proof (intro allI impI)
    fix n :: int assume "1 \<le> n \<and> n < 2"
    then have "n = 1" by simp
    then show "tryAttempt (jsonThenHtml n) = Inl (js ''Non-HTML content type: application/json'')"
      by (simp add: jsonThenHtml_def tryAttempt_def js_def)
  qed
  have j2: "tryAttempt (jsonThenHtml 2) = Inr (CrawlSuccess non_browser (Some 200) ())"
    by code_simp
  have nh: "\<not> includesStr (case Some (js ''application/json'') of None \<Rightarrow> [] | Some h \<Rightarrow> h)
               (js ''text/html'')"
    by code_simp
  note t = C7_retry_schedule[OF m0, where net = slowHost
      and msg = "\<lambda>n. js ''timeout of 30000ms exceeded''" and lower = asciiLower]
  note u = C7_retry_schedule[OF m0, where net = jsonThenHtml
      and msg = "\<lambda>n. js ''Non-HTML content type: application/json''" and lower = asciiLower
      and k = 2 and result = "CrawlSuccess non_browser (Some 200) ()"
      and header = "Some (js ''application/json'')" and status = 200 and extraction = "Inr ()"]
  have a: "nbCrawlUrl asciiLower slowHost None =
     (Some (CrawlFailure non_browser (js ''timeout of 30000ms exceeded'')
              (Some (shouldFallbackToBrowser asciiLower (js ''timeout of 30000ms exceeded'')))),
      attemptsTrace 1000 (effectiveMaxRetries None + 1))"
    using t slow by blast
  have a3: "attemptsTrace 1000 3 =
           [HttpGet \<lparr>timeout = 30000, maxRedirects = 5\<rparr>, Sleep 1000,
            HttpGet \<lparr>timeout = 30000, maxRedirects = 5\<rparr>, Sleep 2000,
            HttpGet \<lparr>timeout = 30000, maxRedirects = 5\<rparr>]"
    using t by blast
  have b: "nbCrawlUrl asciiLower jsonThenHtml None =
       (Some (CrawlSuccess non_browser (Some 200) ()), attemptsTrace 1000 2)"
    using u j1 j2 m by simp
  have c: "tryAttempt (Response (Some (js ''application/json'')) 200 (Inr ())) =
       Inl (js ''Non-HTML content type: '' @ js ''application/json'')"
    using u nh by simp
  show ?thesis
    using a a3 b c m by simp
qed

subsection \<open>The escalation hint\<close>

text \<open>
  When all attempts fail the crawl returns (it does not throw) the failure result with the
  message of the last error and a hint.  The code computes the hint by three tests on the
  message in lower case, in this order: true for timeout, empty, no content or javascript;
  then false for enotfound, econnrefused or certificate; then true (403, 503, cloudflare
  and everything else).
\<close>

lemma nbCrawlUrl_all_fail:
  assumes "0 \<le> effectiveMaxRetries opt"
    and "\<forall>n. 1 \<le> n \<and> n \<le> effectiveMaxRetries opt + 1 \<longrightarrow> tryAttempt (net n) = Inl (msg n)"
  shows "\<exists>hint tr. nbCrawlUrl lower net opt =
            (Some (CrawlFailure non_browser (msg (effectiveMaxRetries opt + 1)) (Some hint)), tr)
         \<and> hint = shouldFallbackToBrowser lower (msg (effectiveMaxRetries opt + 1))
         \<and> (scriptSignature (lower (msg (effectiveMaxRetries opt + 1))) \<longrightarrow> hint)
         \<and> (\<not> scriptSignature (lower (msg (effectiveMaxRetries opt + 1)))
              \<and> networkSignature (lower (msg (effectiveMaxRetries opt + 1))) \<longrightarrow> \<not> hint)
         \<and> (\<not> networkSignature (lower (msg (effectiveMaxRetries opt + 1)))
              \<and> blockSignature (lower (msg (effectiveMaxRetries opt + 1))) \<longrightarrow> hint)
         \<and> (\<not> hint \<longleftrightarrow> \<not> scriptSignature (lower (msg (effectiveMaxRetries opt + 1)))
                          \<and> networkSignature (lower (msg (effectiveMaxRetries opt + 1))))"
proof -
  let ?k = "effectiveMaxRetries opt"
  let ?m = "msg (?k + 1)"
  have "\<forall>n. 1 \<le> n \<and> n \<le> ?k \<longrightarrow> (\<exists>message. tryAttempt (net n) = Inl message)"
    using assms(2) by auto
  moreover have "tryAttempt (net (?k + 1)) = Inl ?m"
    using assms by simp
  ultimately have "attemptLoop lower net nbRetryDelay ?k 1 [] =
           (Some (CrawlFailure non_browser ?m (Some (shouldFallbackToBrowser lower ?m))),
            attemptsTrace nbRetryDelay (?k + 1))"
    using attemptLoop_all_fail[OF assms(1)] by blast
  then have r: "nbCrawlUrl lower net opt =
           (Some (CrawlFailure non_browser ?m (Some (shouldFallbackToBrowser lower ?m))),
            attemptsTrace nbRetryDelay (?k + 1))"
    by (simp add: nbCrawlUrl_def)
  show ?thesis
    using r shouldFallbackToBrowser_cases[of lower ?m]
    by (intro exI[of _ "shouldFallbackToBrowser lower ?m"] exI[of _ "attemptsTrace nbRetryDelay (?k + 1)"])
       simp
qed

lemma nbCrawlUrl_all_fail_examples:
  "(\<exists>tr. nbCrawlUrl asciiLower refusingHost None =
      (Some (CrawlFailure non_browser (js ''connect ECONNREFUSED 127.0.0.1:80'') (Some False)), tr))
   \<and> (\<exists>tr. nbCrawlUrl asciiLower slowHost None =
      (Some (CrawlFailure non_browser (js ''timeout of 30000ms exceeded'') (Some True)), tr))"
proof
  have m0: "0 \<le> effectiveMaxRetries None"
    by (simp add: effectiveMaxRetries_def nbMaxRetries_def)
  have f: "\<forall>n. 1 \<le> n \<and> n \<le> effectiveMaxRetries None + 1 \<longrightarrow>
                tryAttempt (refusingHost n) = Inl (js ''connect ECONNREFUSED 127.0.0.1:80'')"
    by (simp add: refusingHost_def tryAttempt_def)
  have s: "\<not> scriptSignature (asciiLower (js ''connect ECONNREFUSED 127.0.0.1:80''))
           \<and> networkSignature (asciiLower (js ''connect ECONNREFUSED 127.0.0.1:80''))"
    by code_simp
  obtain hint tr where "nbCrawlUrl asciiLower refusingHost None =
            (Some (CrawlFailure non_browser (js ''connect ECONNREFUSED 127.0.0.1:80'') (Some hint)), tr)"
    and "\<not> scriptSignature (asciiLower (js ''connect ECONNREFUSED 127.0.0.1:80''))
              \<and> networkSignature (asciiLower (js ''connect ECONNREFUSED 127.0.0.1:80'')) \<longrightarrow> \<not> hint"
    using nbCrawlUrl_all_fail[OF m0 f, of asciiLower] by blast
  then show "\<exists>tr. nbCrawlUrl asciiLower refusingHost None =
      (Some (CrawlFailure non_browser (js ''connect ECONNREFUSED 127.0.0.1:80'') (Some False)), tr)"
    using s by auto
next
  have m0: "0 \<le> effectiveMaxRetries None"
    by (simp add: effectiveMaxRetries_def nbMaxRetries_def)
  have f: "\<forall>n. 1 \<le> n \<and> n \<le> effectiveMaxRetries None + 1 \<longrightarrow>
                tryAttempt (slowHost n) = Inl (js ''timeout of 30000ms exceeded'')"
    by (simp add: slowHost_def tryAttempt_def)
  have s: "scriptSignature (asciiLower (js ''timeout of 30000ms exceeded''))"
    by code_simp
  obtain hint tr where "nbCrawlUrl asciiLower slowHost None =
            (Some (CrawlFailure non_browser (js ''timeout of 30000ms exceeded'') (Some hint)), tr)"
    and "scriptSignature (asciiLower (js ''timeout of 30000ms exceeded'')) \<longrightarrow> hint"
    using nbCrawlUrl_all_fail[OF m0 f, of asciiLower] by blast
  then show "\<exists>tr. nbCrawlUrl asciiLower slowHost None =
      (Some (CrawlFailure non_browser (js ''timeout of 30000ms exceeded'') (Some True)), tr)"
    using s by auto
qed

text \<open>
  C8.  The hint has to be false for a name-resolution error: a rendered fetch does not
  help when the host name does not resolve.  For the host \<^verbatim>\<open>javascript.info\<close> it
  is true.  The error ``getaddrinfo ENOTFOUND javascript.info'' on all three attempts is a
  name-resolution error and nothing else, and the crawl returns the failure result with the
  hint true: the test for ``javascript'' in the first group finds the word in the host
  name, and the test for ``enotfound'', whose branch returns false, is never reached.  The
  same error for the host \<^verbatim>\<open>example.org\<close> gives the hint false.
\<close>

theorem C8_enotfound_escalates:
  "networkSignature (asciiLower (js ''getaddrinfo ENOTFOUND javascript.info''))
   \<and> shouldFallbackToBrowser asciiLower (js ''getaddrinfo ENOTFOUND javascript.info'') = True
   \<and> nbCrawlUrl asciiLower unknownHost None =
       (Some (CrawlFailure non_browser (js ''getaddrinfo ENOTFOUND javascript.info'') (Some True)),
        [HttpGet requestConfig, Sleep 1000, HttpGet requestConfig, Sleep 2000,
         HttpGet requestConfig])
   \<and> shouldFallbackToBrowser asciiLower (js ''getaddrinfo ENOTFOUND example.org'') = False"
  by code_simp

section \<open>The coordinator never renders\<close>

text \<open>
  C10.  The coordinator's \<open>crawlUrl\<close> either fails on an invalid URL before any crawl, or
  calls the non-browser crawler once and nothing else, and returns a result whose method
  is \<open>non_browser\<close>, or a failure without method when an exception was caught.  It never
  calls the browser crawler: its outcome does not depend on what the browser crawler would
  do, nor on the hint \<open>shouldFallbackToBrowser\<close> of a failure.
\<close>

theorem C10_never_browser:
  "(case coordCrawlUrl parseUrl nb br url of
      (Inl e, calls) \<Rightarrow> calls = [] \<and> parseUrl url = None
    | (Inr r, calls) \<Rightarrow>
        calls = [NonBrowserCall url]
        \<and> (c_method r = Some non_browser \<or> (c_method r = None \<and> \<not> c_success r \<and> c_error r \<noteq> None)))
   \<and> (\<forall>u. BrowserCall u \<notin> set (snd (coordCrawlUrl parseUrl nb br url)))
   \<and> coordCrawlUrl parseUrl nb br url = coordCrawlUrl parseUrl nb br' url
   \<and> coordCrawlUrl parseUrl (\<lambda>u. Inr (Some (CrawlFailure m message hint))) br url
       = coordCrawlUrl parseUrl (\<lambda>u. Inr (Some (CrawlFailure m message hint'))) br url"
  by (auto simp: coordCrawlUrl_def executeNonBrowserCrawl_def caughtResult_def Let_def
      split: option.splits sum.splits crawl_result.splits prod.splits)

theorem C10_never_browser_witness:
  "\<exists>r. coordCrawlUrl anyHost failingCrawler workingBrowser (js ''http://example.org/'')
          = (Inr r, [NonBrowserCall (js ''http://example.org/'')])
     \<and> c_method r = Some non_browser \<and> \<not> c_success r
     \<and> fst (executeBrowserCrawl workingBrowser (js ''http://example.org/'') [])
         = Some (CrawlSuccess browser None
             \<lparr>ed_title = js ''Page'', ed_totalItems = 1, ed_totalWords = 0,
              ed_items = Some [\<lparr>i_title = Some (js ''Page''), i_content = Some [],
                                i_img = None, i_image = None, i_alt = None, i_link = None\<rparr>]\<rparr>)"
proof -
  let ?url = "js ''http://example.org/''"
  let ?res = "coordCrawlUrl anyHost failingCrawler workingBrowser ?url"
  have p: "anyHost ?url \<noteq> None" by (simp add: anyHost_def)
  have s: "\<not> c_success (projr (fst ?res))"
    by (simp add: coordCrawlUrl_def executeNonBrowserCrawl_def failingCrawler_def anyHost_def)
  have b: "fst (executeBrowserCrawl workingBrowser ?url [])
         = Some (CrawlSuccess browser None
             \<lparr>ed_title = js ''Page'', ed_totalItems = 1, ed_totalWords = 0,
              ed_items = Some [\<lparr>i_title = Some (js ''Page''), i_content = Some [],
                                i_img = None, i_image = None, i_alt = None, i_link = None\<rparr>]\<rparr>)"
    by (simp add: executeBrowserCrawl_def workingBrowser_def truthy_def js_def)
  have e: "c_error (projr (fst ?res)) \<noteq> None \<longrightarrow> c_method (projr (fst ?res)) \<noteq> None"
    by (simp add: coordCrawlUrl_def executeNonBrowserCrawl_def failingCrawler_def anyHost_def)
  obtain x calls where x: "?res = (x, calls)" by (cases ?res)
  show ?thesis
  proof (cases x)
    case (Inl err)
    then show ?thesis
      using C10_never_browser[where parseUrl = anyHost and nb = failingCrawler and br = workingBrowser
          and url = "js ''http://example.org/''"] x p by simp
  next
    case (Inr r)
    then have "calls = [NonBrowserCall ?url]"
      and "c_method r = Some non_browser \<or> (c_method r = None \<and> \<not> c_success r \<and> c_error r \<noteq> None)"
      using C10_never_browser[where parseUrl = anyHost and nb = failingCrawler and br = workingBrowser
          and url = "js ''http://example.org/''"] x by simp_all
    then show ?thesis
      using x Inr s e b by auto
  qed
qed

end
